theory Spec2Isabelle
  imports Main "HOL-Library.Sublist"
begin

section \<open>Incident parser: text, patterns and the deterministic extractor\<close>

text \<open>
  A shallow embedding of \<^verbatim>\<open>src/tools/incident_tools.py\<close> and of the batch endpoint of
  \<^verbatim>\<open>src/main.py\<close>.

  A Python \<^verbatim>\<open>str\<close> is modelled as a \<^typ>\<open>string\<close> whose characters are the code
  points U+0000 .. U+00FF (the Latin-1 block, which holds every accented letter of the
  patterns: \<open>CHR 0xE0\<close> is a-grave, \<open>CHR 0xE1\<close> a-acute, \<open>CHR 0xE3\<close> a-tilde,
  \<open>CHR 0xE7\<close> c-cedilla, \<open>CHR 0xEA\<close> e-circumflex, \<open>CHR 0xED\<close> i-acute,
  \<open>CHR 0xF3\<close> o-acute, \<open>CHR 0xF5\<close> o-tilde). \<open>length\<close> counts code points, as
  Python's \<^verbatim>\<open>len\<close> does. The character tables below are those of CPython's
  \<^verbatim>\<open>str\<close> and \<^verbatim>\<open>re\<close> modules restricted to that block.
\<close>

subsection \<open>Character tables\<close>

definition ascii_upper :: string where
  "ascii_upper = ''ABCDEFGHIJKLMNOPQRSTUVWXYZ''"

definition ascii_lower :: string where
  "ascii_lower = ''abcdefghijklmnopqrstuvwxyz''"

definition latin_upper :: string where
  "latin_upper =
     [CHR 0xC0, CHR 0xC1, CHR 0xC2, CHR 0xC3, CHR 0xC4, CHR 0xC5, CHR 0xC6, CHR 0xC7,
      CHR 0xC8, CHR 0xC9, CHR 0xCA, CHR 0xCB, CHR 0xCC, CHR 0xCD, CHR 0xCE, CHR 0xCF,
      CHR 0xD0, CHR 0xD1, CHR 0xD2, CHR 0xD3, CHR 0xD4, CHR 0xD5, CHR 0xD6,
      CHR 0xD8, CHR 0xD9, CHR 0xDA, CHR 0xDB, CHR 0xDC, CHR 0xDD, CHR 0xDE]"

definition latin_lower :: string where
  "latin_lower =
     [CHR 0xE0, CHR 0xE1, CHR 0xE2, CHR 0xE3, CHR 0xE4, CHR 0xE5, CHR 0xE6, CHR 0xE7,
      CHR 0xE8, CHR 0xE9, CHR 0xEA, CHR 0xEB, CHR 0xEC, CHR 0xED, CHR 0xEE, CHR 0xEF,
      CHR 0xF0, CHR 0xF1, CHR 0xF2, CHR 0xF3, CHR 0xF4, CHR 0xF5, CHR 0xF6,
      CHR 0xF8, CHR 0xF9, CHR 0xFA, CHR 0xFB, CHR 0xFC, CHR 0xFD, CHR 0xFE]"

text \<open>\<^verbatim>\<open>str.lower\<close> on one character: the upper-case letters go to their lower-case
  partners, every other character of the block is unchanged.\<close>

definition lower_char :: "char \<Rightarrow> char" where
  "lower_char c =
     (case map_of (zip (ascii_upper @ latin_upper) (ascii_lower @ latin_lower)) c of
        Some l \<Rightarrow> l | None \<Rightarrow> c)"

text \<open>The upper-case partner inside the block. The three lower-case letters whose
  upper-case form lies outside it (sharp s, y-diaeresis, micro sign) are left
  unchanged; no pattern of the program starts with one of them.\<close>

definition upper_char :: "char \<Rightarrow> char" where
  "upper_char c =
     (case map_of (zip (ascii_lower @ latin_lower) (ascii_upper @ latin_upper)) c of
        Some u \<Rightarrow> u | None \<Rightarrow> c)"

definition isdigit :: "char \<Rightarrow> bool" where
  "isdigit c = (c \<in> set ''0123456789'')"

text \<open>\<^verbatim>\<open>str.isspace\<close>, which is also the class \<^verbatim>\<open>\s\<close> of a \<^verbatim>\<open>str\<close> pattern and the
  set that \<^verbatim>\<open>str.strip()\<close> removes.\<close>

definition isspace :: "char \<Rightarrow> bool" where
  "isspace c =
     (c \<in> set [CHR 0x09, CHR 0x0A, CHR 0x0B, CHR 0x0C, CHR 0x0D, CHR 0x1C, CHR 0x1D,
               CHR 0x1E, CHR 0x1F, CHR 0x20, CHR 0x85, CHR 0xA0])"

text \<open>The class \<^verbatim>\<open>\w\<close> that decides \<^verbatim>\<open>\b\<close>: alphanumeric or underscore.\<close>

definition isword :: "char \<Rightarrow> bool" where
  "isword c =
     (c \<in> set (ascii_upper @ ascii_lower @ latin_upper @ latin_lower @ ''0123456789_'' @
               [CHR 0xAA, CHR 0xB2, CHR 0xB3, CHR 0xB5, CHR 0xB9, CHR 0xBA, CHR 0xBC,
                CHR 0xBD, CHR 0xBE, CHR 0xDF, CHR 0xFF]))"

subsection \<open>String methods\<close>

definition lower :: "string \<Rightarrow> string" where
  "lower s = map lower_char s"

definition strip :: "string \<Rightarrow> string" where
  "strip s = rev (dropWhile isspace (rev (dropWhile isspace s)))"

definition endswith :: "string \<Rightarrow> string \<Rightarrow> bool" where
  "endswith s suf = suffix suf s"

text \<open>\<^verbatim>\<open>sub in s\<close> for two strings: \<open>sub\<close> occurs in \<open>s\<close> as a contiguous block.\<close>

fun str_in :: "string \<Rightarrow> string \<Rightarrow> bool" where
  "str_in sub [] = (sub = [])"
| "str_in sub (c # cs) = (prefix sub (c # cs) \<or> str_in sub cs)"

text \<open>\<^verbatim>\<open>s.capitalize()\<close>: first character upper-cased, the others lower-cased.\<close>

definition capitalize :: "string \<Rightarrow> string" where
  "capitalize s = (case s of [] \<Rightarrow> [] | c # cs \<Rightarrow> upper_char c # lower cs)"

text \<open>A name between single quotes, as exception texts show it.\<close>

definition sq :: "string \<Rightarrow> string" where
  "sq s = [CHR 0x27] @ s @ [CHR 0x27]"

text \<open>\<^verbatim>\<open>text[:100] + "..." if len(text) > 100 else text\<close>\<close>

definition truncate100 :: "string \<Rightarrow> string" where
  "truncate100 s = (if length s > 100 then take 100 s @ ''...'' else s)"

subsection \<open>Regular expressions\<close>

text \<open>
  The fragment of Python's \<^verbatim>\<open>re\<close> syntax that the program's patterns use. A class item
  is a character, a range, \<^verbatim>\<open>\d\<close> or \<^verbatim>\<open>\s\<close>; an atom is a literal or a (possibly negated)
  class; repetition \<^verbatim>\<open>{lo,hi}\<close>, \<^verbatim>\<open>*\<close>, \<^verbatim>\<open>+\<close> (greedy or lazy) is only ever applied to an atom
  in the program, \<^verbatim>\<open>?\<close> also to groups.
\<close>

datatype item = Ch char | Rng char char | CatDigit | CatSpace

datatype atom = Lit char | In bool "item list"

datatype regex =
    Atom atom
  | Rep atom nat "nat option" bool
  | Opt regex
  | Seq regex regex
  | Eps
  | Alt regex regex
  | Group nat regex
  | WordB

record mstate =
  prev :: "char option"
  rest :: string
  caps :: "string option list"

record rmatch =
  before_match :: string
  matched :: string
  after_match :: string
  groups :: "string option list"

definition in_range :: "char \<Rightarrow> char \<Rightarrow> char \<Rightarrow> bool" where
  "in_range a b c = ((of_char a :: nat) \<le> of_char c \<and> (of_char c :: nat) \<le> of_char b)"

text \<open>With \<^verbatim>\<open>re.IGNORECASE\<close> the compiler lower-cases the literals and ranges of a class
  and the matcher lower-cases the character it reads; \<open>c\<close> below is the character as
  read by the matcher.\<close>

fun item_match :: "bool \<Rightarrow> item \<Rightarrow> char \<Rightarrow> bool" where
  "item_match ic (Ch x) c = (c = (if ic then lower_char x else x))"
| "item_match ic (Rng a b) c =
     (if ic then (in_range a b c \<and> lower_char c = c) \<or> (in_range a b (upper_char c) \<and> lower_char (upper_char c) = c)
      else in_range a b c)"
| "item_match ic CatDigit c = isdigit c"
| "item_match ic CatSpace c = isspace c"

fun atom_match :: "bool \<Rightarrow> atom \<Rightarrow> char \<Rightarrow> bool" where
  "atom_match ic (Lit x) c =
     ((if ic then lower_char c else c) = (if ic then lower_char x else x))"
| "atom_match ic (In neg its) c =
     (neg \<noteq> list_ex (\<lambda>it. item_match ic it (if ic then lower_char c else c)) its)"

text \<open>Greedy and lazy repetition of an atom, between \<open>lo\<close> and \<open>hi\<close> times, with the
  rest of the pattern as continuation \<open>k\<close>: the greedy form takes one more character
  first and falls back to stopping, the lazy form stops first.\<close>

fun rep :: "atom \<Rightarrow> bool \<Rightarrow> bool \<Rightarrow> string option list \<Rightarrow> (mstate \<Rightarrow> mstate option) \<Rightarrow>
            nat \<Rightarrow> nat option \<Rightarrow> char option \<Rightarrow> string \<Rightarrow> mstate option" where
  "rep a ic g cp k lo hi p [] =
     (if lo = 0 then k \<lparr>prev = p, rest = [], caps = cp\<rparr> else None)"
| "rep a ic g cp k lo hi p (c # cs) =
     (if g then
        (case (if hi \<noteq> Some 0 \<and> atom_match ic a c
               then rep a ic g cp k (lo - 1) (map_option (\<lambda>h. h - 1) hi) (Some c) cs
               else None) of
           Some r \<Rightarrow> Some r
         | None \<Rightarrow> if lo = 0 then k \<lparr>prev = p, rest = c # cs, caps = cp\<rparr> else None)
      else
        (case (if lo = 0 then k \<lparr>prev = p, rest = c # cs, caps = cp\<rparr> else None) of
           Some r \<Rightarrow> Some r
         | None \<Rightarrow> if hi \<noteq> Some 0 \<and> atom_match ic a c
               then rep a ic g cp k (lo - 1) (map_option (\<lambda>h. h - 1) hi) (Some c) cs
               else None))"

definition at_boundary :: "char option \<Rightarrow> string \<Rightarrow> bool" where
  "at_boundary p s =
     ((case p of None \<Rightarrow> False | Some c \<Rightarrow> isword c) \<noteq>
      (case s of [] \<Rightarrow> False | c # _ \<Rightarrow> isword c))"

text \<open>The backtracking matcher, anchored at the current position. Alternatives are
  tried left to right and the first one whose continuation succeeds wins; a group
  records the text consumed between its entry and its exit.\<close>

primrec rmatch_at :: "regex \<Rightarrow> bool \<Rightarrow> mstate \<Rightarrow> (mstate \<Rightarrow> mstate option) \<Rightarrow> mstate option" where
  "rmatch_at (Atom a) ic s k =
     (case rest s of
        [] \<Rightarrow> None
      | c # cs \<Rightarrow> if atom_match ic a c then k (s\<lparr>prev := Some c, rest := cs\<rparr>) else None)"
| "rmatch_at (Rep a lo hi g) ic s k = rep a ic g (caps s) k lo hi (prev s) (rest s)"
| "rmatch_at (Opt r) ic s k =
     (case rmatch_at r ic s k of Some x \<Rightarrow> Some x | None \<Rightarrow> k s)"
| "rmatch_at (Seq r1 r2) ic s k = rmatch_at r1 ic s (\<lambda>s'. rmatch_at r2 ic s' k)"
| "rmatch_at Eps ic s k = k s"
| "rmatch_at (Alt r1 r2) ic s k =
     (case rmatch_at r1 ic s k of Some x \<Rightarrow> Some x | None \<Rightarrow> rmatch_at r2 ic s k)"
| "rmatch_at (Group n r) ic s k =
     rmatch_at r ic s
       (\<lambda>s'. k (s'\<lparr>caps := (caps s')[n - 1 :=
                  Some (take (length (rest s) - length (rest s')) (rest s))]\<rparr>))"
| "rmatch_at WordB ic s k = (if at_boundary (prev s) (rest s) then k s else None)"

primrec ngroups :: "regex \<Rightarrow> nat" where
  "ngroups (Atom a) = 0"
| "ngroups (Rep a lo hi g) = 0"
| "ngroups (Opt r) = ngroups r"
| "ngroups (Seq r1 r2) = max (ngroups r1) (ngroups r2)"
| "ngroups Eps = 0"
| "ngroups (Alt r1 r2) = max (ngroups r1) (ngroups r2)"
| "ngroups (Group n r) = max n (ngroups r)"
| "ngroups WordB = 0"

text \<open>\<^verbatim>\<open>re.search\<close>: the match at the leftmost position where the pattern matches.\<close>

fun search_from :: "regex \<Rightarrow> bool \<Rightarrow> string \<Rightarrow> char option \<Rightarrow> string \<Rightarrow> rmatch option" where
  "search_from r ic skipped p [] =
     (case rmatch_at r ic \<lparr>prev = p, rest = [], caps = replicate (ngroups r) None\<rparr> Some of
        Some s' \<Rightarrow> Some \<lparr>before_match = skipped, matched = [], after_match = [], groups = caps s'\<rparr>
      | None \<Rightarrow> None)"
| "search_from r ic skipped p (c # cs) =
     (case rmatch_at r ic \<lparr>prev = p, rest = c # cs, caps = replicate (ngroups r) None\<rparr> Some of
        Some s' \<Rightarrow>
          Some \<lparr>before_match = skipped,
                matched = take (length (c # cs) - length (rest s')) (c # cs),
                after_match = rest s', groups = caps s'\<rparr>
      | None \<Rightarrow> search_from r ic (skipped @ [c]) (Some c) cs)"

definition re_search :: "regex \<Rightarrow> bool \<Rightarrow> string \<Rightarrow> rmatch option" where
  "re_search r ic text = search_from r ic [] None text"

text \<open>\<^verbatim>\<open>re.sub(pattern, repl, text)\<close> with a literal replacement: scanning from the
  left, each match is replaced and the scan resumes after it; \<open>skip\<close> counts the
  characters of the current match still to be dropped. An empty match inserts the
  replacement and the scan moves on by one character.\<close>

fun sub_scan :: "regex \<Rightarrow> bool \<Rightarrow> string \<Rightarrow> nat \<Rightarrow> char option \<Rightarrow> string \<Rightarrow> string" where
  "sub_scan r ic repl skip p [] =
     (if skip = 0 then
        (case rmatch_at r ic \<lparr>prev = p, rest = [], caps = replicate (ngroups r) None\<rparr> Some of
           Some s' \<Rightarrow> repl | None \<Rightarrow> [])
      else [])"
| "sub_scan r ic repl skip p (c # cs) =
     (if skip > 0 then sub_scan r ic repl (skip - 1) (Some c) cs
      else
        (case rmatch_at r ic \<lparr>prev = p, rest = c # cs, caps = replicate (ngroups r) None\<rparr> Some of
           None \<Rightarrow> c # sub_scan r ic repl 0 (Some c) cs
         | Some s' \<Rightarrow>
             (if length (rest s') = length (c # cs)
              then repl @ c # sub_scan r ic repl 0 (Some c) cs
              else repl @ sub_scan r ic repl (length (c # cs) - length (rest s') - 1) (Some c) cs)))"

definition re_sub :: "regex \<Rightarrow> string \<Rightarrow> string \<Rightarrow> string" where
  "re_sub r repl text = sub_scan r False repl 0 None text"

text \<open>Pattern-building shorthands: a literal word, \<^verbatim>\<open>\s+\<close>, \<^verbatim>\<open>\s*\<close>, \<^verbatim>\<open>\d\<close> and the
  class \<^verbatim>\<open>[^,\.]\<close>.\<close>

definition word :: "string \<Rightarrow> regex" where
  "word s = foldr (\<lambda>c r. Seq (Atom (Lit c)) r) s Eps"

definition seqs :: "regex list \<Rightarrow> regex" where
  "seqs rs = foldr Seq rs Eps"

definition alts :: "regex \<Rightarrow> regex list \<Rightarrow> regex" where
  "alts r rs = foldl Alt r rs"

definition sp :: atom where "sp = In False [CatSpace]"
definition dg :: atom where "dg = In False [CatDigit]"
definition not_comma_dot :: atom where "not_comma_dot = In True [Ch CHR '','', Ch CHR ''.'']"

definition sp_plus :: regex where "sp_plus = Rep sp 1 None True"
definition sp_star :: regex where "sp_star = Rep sp 0 None True"

subsection \<open>Errors and match objects\<close>

text \<open>The exceptions that can arise, each with the text \<^verbatim>\<open>str(e)\<close> gives.
  \<open>TransportError\<close> stands for whatever the HTTP client raises.\<close>

datatype error =
    ValueError string
  | OverflowError string
  | IndexError string
  | AttributeError string
  | TypeError string
  | JSONDecodeError string
  | TransportError string

fun error_str :: "error \<Rightarrow> string" where
  "error_str (ValueError s) = s"
| "error_str (OverflowError s) = s"
| "error_str (IndexError s) = s"
| "error_str (AttributeError s) = s"
| "error_str (TypeError s) = s"
| "error_str (JSONDecodeError s) = s"
| "error_str (TransportError s) = s"

text \<open>\<^verbatim>\<open>match.group(n)\<close>: the whole match for 0, the text of group \<open>n\<close> or \<^verbatim>\<open>None\<close>
  when the group took no part, \<^verbatim>\<open>IndexError\<close> when the pattern has no such group.
  \<^verbatim>\<open>match.groups()\<close> is the field \<open>groups\<close>.\<close>

definition group :: "rmatch \<Rightarrow> nat \<Rightarrow> error + string option" where
  "group m n =
     (if n = 0 then Inr (Some (matched m))
      else if n \<le> length (groups m) then Inr (groups m ! (n - 1))
      else Inl (IndexError ''no such group''))"

text \<open>\<^verbatim>\<open>match.group(n).strip()\<close>\<close>

definition group_strip :: "rmatch \<Rightarrow> nat \<Rightarrow> error + string" where
  "group_strip m n =
     (case group m n of
        Inl e \<Rightarrow> Inl e
      | Inr None \<Rightarrow>
          Inl (AttributeError (sq ''NoneType'' @ '' object has no attribute '' @ sq ''strip''))
      | Inr (Some s) \<Rightarrow> Inr (strip s))"

definition digit_val :: "char \<Rightarrow> nat" where
  "digit_val c = (of_char c :: nat) - 48"

text \<open>\<^verbatim>\<open>int(s)\<close> on what a group returned; the groups it is applied to hold decimal
  digits only.\<close>

definition py_int :: "string option \<Rightarrow> error + nat" where
  "py_int g =
     (case g of
        None \<Rightarrow>
          Inl (TypeError
                (''int() argument must be a string, a bytes-like object or a real number, not '' @
                 sq ''NoneType''))
      | Some s \<Rightarrow>
          if s \<noteq> [] \<and> list_all isdigit s
          then Inr (foldl (\<lambda>n c. 10 * n + digit_val c) 0 s)
          else Inl (ValueError (''invalid literal for int() with base 10: '' @ sq s)))"

subsection \<open>Dates\<close>

text \<open>A \<^verbatim>\<open>datetime\<close>, to the minute (seconds never reach the output).\<close>

record datetime =
  year :: nat
  month :: nat
  day :: nat
  hour :: nat
  minute :: nat

definition is_leap :: "nat \<Rightarrow> bool" where
  "is_leap y = (y mod 4 = 0 \<and> (y mod 100 \<noteq> 0 \<or> y mod 400 = 0))"

definition days_in_month :: "nat \<Rightarrow> nat \<Rightarrow> nat" where
  "days_in_month y m =
     (if m = 2 then (if is_leap y then 29 else 28)
      else if m = 4 \<or> m = 6 \<or> m = 9 \<or> m = 11 then 30 else 31)"

definition valid_datetime :: "datetime \<Rightarrow> bool" where
  "valid_datetime d =
     (1 \<le> year d \<and> year d \<le> 9999 \<and> 1 \<le> month d \<and> month d \<le> 12 \<and>
      1 \<le> day d \<and> day d \<le> days_in_month (year d) (month d) \<and>
      hour d < 24 \<and> minute d < 60)"

text \<open>One day back in the proleptic Gregorian calendar; before 0001-01-01 the
  subtraction overflows.\<close>

definition prev_day :: "datetime \<Rightarrow> error + datetime" where
  "prev_day d =
     (if day d > 1 then Inr (d\<lparr>day := day d - 1\<rparr>)
      else if month d > 1
        then Inr (d\<lparr>month := month d - 1, day := days_in_month (year d) (month d - 1)\<rparr>)
      else if year d > 1 then Inr (d\<lparr>year := year d - 1, month := 12, day := 31\<rparr>)
      else Inl (OverflowError ''date value out of range''))"

text \<open>\<^verbatim>\<open>d - timedelta(days=n)\<close>\<close>

fun minus_days :: "datetime \<Rightarrow> nat \<Rightarrow> error + datetime" where
  "minus_days d 0 = Inr d"
| "minus_days d (Suc n) = (case prev_day d of Inl e \<Rightarrow> Inl e | Inr d' \<Rightarrow> minus_days d' n)"

text \<open>\<^verbatim>\<open>d.replace(hour=h, minute=mi)\<close>: the constructor checks the hour, then the minute.\<close>

definition replace_hm :: "datetime \<Rightarrow> nat \<Rightarrow> nat \<Rightarrow> error + datetime" where
  "replace_hm d h mi =
     (if h > 23 then Inl (ValueError ''hour must be in 0..23'')
      else if mi > 59 then Inl (ValueError ''minute must be in 0..59'')
      else Inr (d\<lparr>hour := h, minute := mi\<rparr>))"

definition digit_char :: "nat \<Rightarrow> char" where
  "digit_char n = ''0123456789'' ! (n mod 10)"

definition pad2 :: "nat \<Rightarrow> string" where
  "pad2 n = [digit_char (n div 10), digit_char n]"

definition pad4 :: "nat \<Rightarrow> string" where
  "pad4 n = [digit_char (n div 1000), digit_char (n div 100), digit_char (n div 10), digit_char n]"

text \<open>\<^verbatim>\<open>d.strftime("%Y-%m-%d")\<close> and \<^verbatim>\<open>d.strftime("%Y-%m-%d %H:%M")\<close>, for the years
  1000 to 9999.\<close>

definition strftime_date :: "datetime \<Rightarrow> string" where
  "strftime_date d = pad4 (year d) @ ''-'' @ pad2 (month d) @ ''-'' @ pad2 (day d)"

definition strftime :: "datetime \<Rightarrow> string" where
  "strftime d = strftime_date d @ '' '' @ pad2 (hour d) @ '':'' @ pad2 (minute d)"

subsection \<open>The pattern library\<close>

definition hh :: regex where "hh = Rep dg 1 (Some 2) True"
definition mm :: regex where "mm = Rep dg 2 (Some 2) True"

text \<open>\<^verbatim>\<open>(\d{1,2})h(\d{2})?\<close>, \<^verbatim>\<open>(\d{1,2}):(\d{2})\<close>, \<^verbatim>\<open>\<close> and a-grave \<^verbatim>\<open>s (\d{1,2})\<close>\<close>

definition time_patterns :: "regex list" where
  "time_patterns =
     [seqs [Group 1 hh, Atom (Lit CHR ''h''), Opt (Group 2 mm)],
      seqs [Group 1 hh, Atom (Lit CHR '':''), Group 2 mm],
      seqs [word [CHR 0xE0, CHR ''s'', CHR '' ''], Group 1 hh]]"

definition prep5 :: regex where
  "prep5 = alts (word ''no'') [word ''na'', word ''em'', word ''do'', word ''da'']"

definition prep4 :: regex where
  "prep4 = alts (word ''no'') [word ''na'', word ''do'', word ''da'']"

definition clause :: regex where "clause = Rep not_comma_dot 1 None True"

text \<open>
  \<^verbatim>\<open>(?:no|na|em|do|da)\s+(?:escritorio|filial|sede|unidade)\s+(?:de|do|da)?\s*([^,\.\s]+)\<close>
  \<^verbatim>\<open>(?:em|na|no)\s+([A-Z][a-z....\s]+?)(?:\s*,|\s*\.|\s*que|\s*houve)\<close>
  \<^verbatim>\<open>local[:\s]+([^,\.]+)\<close>
  (with o-acute in the first and a-acute, e-circumflex, c-cedilla, o-tilde in the class
  of the second). Each has one capturing group; \<^verbatim>\<open>(?:...)\<close> does not capture.
\<close>

definition location_patterns :: "regex list" where
  "location_patterns =
     [seqs [prep5, sp_plus,
            alts (word (''escrit'' @ [CHR 0xF3] @ ''rio''))
                 [word ''filial'', word ''sede'', word ''unidade''],
            sp_plus,
            Opt (alts (word ''de'') [word ''do'', word ''da'']),
            sp_star,
            Group 1 (Rep (In True [Ch CHR '','', Ch CHR ''.'', CatSpace]) 1 None True)],
      seqs [alts (word ''em'') [word ''na'', word ''no''], sp_plus,
            Group 1 (Seq (Atom (In False [Rng CHR ''A'' CHR ''Z'']))
                         (Rep (In False [Rng CHR ''a'' CHR ''z'', Ch (CHR 0xE1), Ch (CHR 0xEA),
                                         Ch (CHR 0xE7), Ch (CHR 0xF5), CatSpace]) 1 None False)),
            alts (Seq sp_star (Atom (Lit CHR '','')))
                 [Seq sp_star (Atom (Lit CHR ''.'')), Seq sp_star (word ''que''),
                  Seq sp_star (word ''houve'')]],
      seqs [word ''local'', Rep (In False [Ch CHR '':'', CatSpace]) 1 None True, Group 1 clause]]"

text \<open>\<^verbatim>\<open>(stem\s+(?:no|na|do|da)\s+[^,\.]+)\<close> for the stems falha, erro, problema,
  interrupcao (with cedilla and tilde), pane.\<close>

definition type_pattern :: "string \<Rightarrow> regex" where
  "type_pattern stem = Group 1 (seqs [word stem, sp_plus, prep4, sp_plus, clause])"

definition type_patterns :: "regex list" where
  "type_patterns =
     [type_pattern ''falha'', type_pattern ''erro'', type_pattern ''problema'',
      type_pattern (''interrup'' @ [CHR 0xE7, CHR 0xE3] @ ''o''), type_pattern ''pane'']"

text \<open>
  \<^verbatim>\<open>(afetou\s+[^,\.]+(?:\s+por\s+[^,\.]+)?)\<close>
  \<^verbatim>\<open>(indisponivel\s+por\s+[^,\.]+)\<close>  (i-acute)
  \<^verbatim>\<open>(duracao\s+de\s+[^,\.]+)\<close>  (cedilla, tilde)
  \<^verbatim>\<open>(por\s+\d+\s+(?:horas?|minutos?|dias?))\<close>
  \<^verbatim>\<open>(ficou\s+[^,\.]+\s+por\s+[^,\.]+)\<close>
\<close>

definition plural :: "string \<Rightarrow> regex" where
  "plural w = Seq (word w) (Rep (Lit CHR ''s'') 0 (Some 1) True)"

definition impact_patterns :: "regex list" where
  "impact_patterns =
     [Group 1 (seqs [word ''afetou'', sp_plus, clause,
                     Opt (seqs [sp_plus, word ''por'', sp_plus, clause])]),
      Group 1 (seqs [word (''indispon'' @ [CHR 0xED] @ ''vel''), sp_plus, word ''por'', sp_plus, clause]),
      Group 1 (seqs [word (''dura'' @ [CHR 0xE7, CHR 0xE3] @ ''o''), sp_plus, word ''de'', sp_plus, clause]),
      Group 1 (seqs [word ''por'', sp_plus, Rep dg 1 None True, sp_plus,
                     alts (plural ''hora'') [plural ''minuto'', plural ''dia'']]),
      Group 1 (seqs [word ''ficou'', sp_plus, clause, sp_plus, word ''por'', sp_plus, clause])]"

subsection \<open>The field extractors\<close>

text \<open>The loop over the time patterns of \<^verbatim>\<open>_extract_date_info\<close>: the first pattern (in
  list order) that matches anywhere in the text sets the hour, and the minute when its
  second group holds something; no match leaves 0 and 0.\<close>

fun first_time :: "regex list \<Rightarrow> string \<Rightarrow> error + nat \<times> nat" where
  "first_time [] t = Inr (0, 0)"
| "first_time (p # ps) t =
     (case re_search p False t of
        None \<Rightarrow> first_time ps t
      | Some m \<Rightarrow>
          (case group m 1 of
             Inl e \<Rightarrow> Inl e
           | Inr g1 \<Rightarrow>
               (case py_int g1 of
                  Inl e \<Rightarrow> Inl e
                | Inr h \<Rightarrow>
                    if length (groups m) > 1 then
                      (case group m 2 of
                         Inl e \<Rightarrow> Inl e
                       | Inr g2 \<Rightarrow>
                           if g2 \<noteq> None \<and> g2 \<noteq> Some [] then
                             (case py_int g2 of Inl e \<Rightarrow> Inl e | Inr mi \<Rightarrow> Inr (h, mi))
                           else Inr (h, 0))
                    else Inr (h, 0))))"

text \<open>The base date of \<^verbatim>\<open>_extract_date_info\<close>: the \<^verbatim>\<open>if/elif\<close> chain over the
  lower-cased text, in the source's order.\<close>

definition target_date :: "datetime \<Rightarrow> string \<Rightarrow> error + datetime" where
  "target_date now text_lower =
     (if str_in ''ontem'' text_lower \<or> str_in ''yesterday'' text_lower then minus_days now 1
      else if str_in ''hoje'' text_lower \<or> str_in ''today'' text_lower then Inr now
      else if str_in ''anteontem'' text_lower then minus_days now 2
      else Inr now)"

definition extract_date_info :: "datetime \<Rightarrow> string \<Rightarrow> error + string" where
  "extract_date_info now text =
     (let text_lower = lower text in
      case target_date now text_lower of
        Inl e \<Rightarrow> Inl e
      | Inr td \<Rightarrow>
          (case first_time time_patterns text_lower of
             Inl e \<Rightarrow> Inl e
           | Inr (h, mi) \<Rightarrow>
               (case replace_hm td h mi of
                  Inl e \<Rightarrow> Inl e
                | Inr d \<Rightarrow> Inr (strftime d))))"

fun extract_location_loop :: "regex list \<Rightarrow> string \<Rightarrow> error + string" where
  "extract_location_loop [] text = Inr ''N/A''"
| "extract_location_loop (p # ps) text =
     (case re_search p True text of
        None \<Rightarrow> extract_location_loop ps text
      | Some m \<Rightarrow> if length (groups m) > 1 then group_strip m 2 else group_strip m 1)"

definition extract_location :: "string \<Rightarrow> error + string" where
  "extract_location text = extract_location_loop location_patterns text"

definition type_sentinel :: string where
  "type_sentinel = ''Incidente n'' @ [CHR 0xE3] @ ''o especificado''"

fun extract_incident_type_loop :: "regex list \<Rightarrow> string \<Rightarrow> error + string" where
  "extract_incident_type_loop [] text = Inr type_sentinel"
| "extract_incident_type_loop (p # ps) text =
     (case re_search p True text of
        None \<Rightarrow> extract_incident_type_loop ps text
      | Some m \<Rightarrow> (case group_strip m 1 of Inl e \<Rightarrow> Inl e | Inr s \<Rightarrow> Inr (capitalize s)))"

definition extract_incident_type :: "string \<Rightarrow> error + string" where
  "extract_incident_type text = extract_incident_type_loop type_patterns text"

fun extract_impact_loop :: "regex list \<Rightarrow> string \<Rightarrow> error + string" where
  "extract_impact_loop [] text = Inr (truncate100 text)"
| "extract_impact_loop (p # ps) text =
     (case re_search p True text of
        None \<Rightarrow> extract_impact_loop ps text
      | Some m \<Rightarrow> group_strip m 1)"

definition extract_impact :: "string \<Rightarrow> error + string" where
  "extract_impact text = extract_impact_loop impact_patterns text"

subsection \<open>JSON values and the result of an extraction\<close>

text \<open>What \<^verbatim>\<open>json.loads\<close> returns: \<^verbatim>\<open>None\<close>, a bool, a number, a string, a list or a
  dict (an association list in insertion order).\<close>

datatype json =
    JNull
  | JBool bool
  | JInt int
  | JFloat int int
  | JStr string
  | JArr "json list"
  | JObj "(string \<times> json) list"

text \<open>\<^verbatim>\<open>type(x).__name__\<close>, as exception texts show it.\<close>

fun type_name :: "json \<Rightarrow> string" where
  "type_name JNull = ''NoneType''"
| "type_name (JBool b) = ''bool''"
| "type_name (JInt i) = ''int''"
| "type_name (JFloat m e) = ''float''"
| "type_name (JStr s) = ''str''"
| "type_name (JArr xs) = ''list''"
| "type_name (JObj kvs) = ''dict''"

text \<open>The dict the extraction returns: \<^verbatim>\<open>status\<close> and \<^verbatim>\<open>incident\<close> always,
  \<^verbatim>\<open>message\<close> on the error path, \<^verbatim>\<open>method\<close> (here \<open>method_tag\<close>) on the fallback's
  success path.\<close>

record outcome =
  status :: string
  message :: "string option"
  incident :: json method_tag :: "string option"

definition incident_dict :: "string \<Rightarrow> string \<Rightarrow> string \<Rightarrow> string \<Rightarrow> json" where
  "incident_dict d l t i =
     JObj [(''data_ocorrencia'', JStr d), (''local'', JStr l),
           (''tipo_incidente'', JStr t), (''impacto'', JStr i)]"

subsection \<open>The deterministic extractor\<close>

text \<open>The body of the \<^verbatim>\<open>try\<close> of \<^verbatim>\<open>_fallback_incident_parsing\<close>: the four extractions in
  the source's order; the first exception leaves the block.\<close>

definition fallback_try :: "datetime \<Rightarrow> string \<Rightarrow> error + outcome" where
  "fallback_try now incident_description =
     (case extract_date_info now incident_description of
        Inl e \<Rightarrow> Inl e
      | Inr date_occurrence \<Rightarrow>
     (case extract_location incident_description of
        Inl e \<Rightarrow> Inl e
      | Inr location \<Rightarrow>
     (case extract_incident_type incident_description of
        Inl e \<Rightarrow> Inl e
      | Inr incident_type \<Rightarrow>
     (case extract_impact incident_description of
        Inl e \<Rightarrow> Inl e
      | Inr impact \<Rightarrow>
          Inr \<lparr>status = ''success'', message = None,
               incident = incident_dict date_occurrence location incident_type impact, method_tag = Some ''regex_fallback''\<rparr>))))"

text \<open>\<^verbatim>\<open>_fallback_incident_parsing(incident_description, error)\<close>. \<open>now\<close> is the clock
  as read by the date extraction, \<open>now_e\<close> the clock as read by the \<^verbatim>\<open>except\<close> block;
  \<^verbatim>\<open>error or str(e)\<close> takes \<^verbatim>\<open>str(e)\<close> when \<open>error\<close> is \<^verbatim>\<open>None\<close> or empty.\<close>

definition fallback_incident_parsing ::
    "datetime \<Rightarrow> datetime \<Rightarrow> string \<Rightarrow> string option \<Rightarrow> outcome" where
  "fallback_incident_parsing now now_e incident_description error =
     (case fallback_try now incident_description of
        Inr r \<Rightarrow> r
      | Inl e \<Rightarrow>
          (let error_message =
                 (case error of
                    None \<Rightarrow> error_str e
                  | Some s \<Rightarrow> if s = [] then error_str e else s)
           in \<lparr>status = ''error'', message = Some (''Parsing failed: '' @ error_message),
                incident = incident_dict (strftime now_e) ''N/A'' ''Erro no processamento''
                             (truncate100 incident_description), method_tag = None\<rparr>))"

subsection \<open>The normalizer\<close>

definition basic_text_cleaning :: "string \<Rightarrow> string" where
  "basic_text_cleaning text =
     (let text1 = re_sub sp_plus '' '' (strip text);
          text2 = re_sub (seqs [sp_star, Atom (Lit CHR '',''), sp_star]) '', '' text1;
          text3 = re_sub (seqs [sp_star, Atom (Lit CHR ''.''), sp_star]) ''. '' text2
      in if \<not> endswith text3 ''.'' then text3 @ ''.'' else text3)"

definition relative_dates :: "string list" where
  "relative_dates = [''ontem'', ''hoje'', ''anteontem'']"

text \<open>\<^verbatim>\<open>\d{1,2}h\<close>, \<^verbatim>\<open>\d{1,2}:\d{2}\<close>, a-grave \<^verbatim>\<open>s \d+\<close>, \<^verbatim>\<open>pela manha\<close> (tilde),
  a-grave \<^verbatim>\<open> tarde\<close>, a-grave \<^verbatim>\<open> noite\<close>\<close>

definition context_time_patterns :: "regex list" where
  "context_time_patterns =
     [seqs [hh, Atom (Lit CHR ''h'')],
      seqs [hh, Atom (Lit CHR '':''), mm],
      seqs [word [CHR 0xE0, CHR ''s'', CHR '' ''], Rep dg 1 None True],
      word (''pela manh'' @ [CHR 0xE3]),
      word ([CHR 0xE0] @ '' tarde''),
      word ([CHR 0xE0] @ '' noite'')]"

definition time_marker :: string where
  "time_marker = '' (hor'' @ [CHR 0xE1] @ ''rio n'' @ [CHR 0xE3] @ ''o especificado)''"

definition add_missing_time_context :: "string \<Rightarrow> string" where
  "add_missing_time_context text =
     (let has_relative_date =
            list_ex (\<lambda>date. re_search (seqs [WordB, word date, WordB]) True text \<noteq> None)
              relative_dates;
          has_time_info =
            list_ex (\<lambda>pattern. re_search pattern True text \<noteq> None) context_time_patterns
      in if has_relative_date \<and> \<not> has_time_info then text @ time_marker else text)"

text \<open>The annotation \<^verbatim>\<open> [Referencia: YYYY-MM-DD]\<close> (the word carries an e-circumflex).\<close>

definition reference_annotation :: "datetime \<Rightarrow> string" where
  "reference_annotation now = '' [Refer'' @ [CHR 0xEA] @ ''ncia: '' @ strftime_date now @ '']''"

definition add_date_reference :: "datetime \<Rightarrow> string \<Rightarrow> string" where
  "add_date_reference now text =
     (if list_ex (\<lambda>word. str_in word (lower text)) relative_dates
      then text @ reference_annotation now
      else text)"

definition preprocess_incident_text :: "datetime \<Rightarrow> string \<Rightarrow> string" where
  "preprocess_incident_text now text =
     add_date_reference now (add_missing_time_context (basic_text_cleaning text))"

subsection \<open>The orchestrator\<close>

record response =
  status_code :: int
  json_body :: "error + json"

text \<open>\<^verbatim>\<open>field in parsed_json\<close>: key membership for a dict, element membership for a
  list, substring test for a string, \<^verbatim>\<open>TypeError\<close> for anything else.\<close>

definition json_contains :: "json \<Rightarrow> string \<Rightarrow> error + bool" where
  "json_contains j field =
     (case j of
        JObj kvs \<Rightarrow> Inr (field \<in> set (map fst kvs))
      | JArr xs \<Rightarrow> Inr (JStr field \<in> set xs)
      | JStr s \<Rightarrow> Inr (str_in field s)
      | _ \<Rightarrow> Inl (TypeError (''argument of type '' @ sq (type_name j) @ '' is not iterable'')))"

fun dict_set :: "(string \<times> json) list \<Rightarrow> string \<Rightarrow> json \<Rightarrow> (string \<times> json) list" where
  "dict_set [] k v = [(k, v)]"
| "dict_set ((k', v') # kvs) k v =
     (if k' = k then (k, v) # kvs else (k', v') # dict_set kvs k v)"

text \<open>\<^verbatim>\<open>parsed_json[field] = value\<close>\<close>

definition json_setitem :: "json \<Rightarrow> string \<Rightarrow> json \<Rightarrow> error + json" where
  "json_setitem j field v =
     (case j of
        JObj kvs \<Rightarrow> Inr (JObj (dict_set kvs field v))
      | JArr xs \<Rightarrow> Inl (TypeError ''list indices must be integers or slices, not str'')
      | _ \<Rightarrow> Inl (TypeError (sq (type_name j) @ '' object does not support item assignment'')))"

definition required_fields :: "string list" where
  "required_fields = [''data_ocorrencia'', ''local'', ''tipo_incidente'', ''impacto'']"

text \<open>The validation loop: each required field that is not in the payload is set to
  \<^verbatim>\<open>"N/A"\<close>.\<close>

fun fill_missing :: "string list \<Rightarrow> json \<Rightarrow> error + json" where
  "fill_missing [] j = Inr j"
| "fill_missing (field # rfs) j =
     (case json_contains j field of
        Inl e \<Rightarrow> Inl e
      | Inr True \<Rightarrow> fill_missing rfs j
      | Inr False \<Rightarrow>
          (case json_setitem j field (JStr ''N/A'') of
             Inl e \<Rightarrow> Inl e
           | Inr j' \<Rightarrow> fill_missing rfs j'))"

text \<open>\<^verbatim>\<open>response.json().get('response', '').strip()\<close>\<close>

definition llm_response_of :: "json \<Rightarrow> error + string" where
  "llm_response_of j =
     (case j of
        JObj kvs \<Rightarrow>
          (let v = (case map_of kvs ''response'' of None \<Rightarrow> JStr [] | Some x \<Rightarrow> x) in
           case v of
             JStr s \<Rightarrow> Inr (strip s)
           | _ \<Rightarrow>
               Inl (AttributeError (sq (type_name v) @ '' object has no attribute '' @ sq ''strip'')))
      | _ \<Rightarrow> Inl (AttributeError (sq (type_name j) @ '' object has no attribute '' @ sq ''get'')))"

definition parsing_prompt :: "string \<Rightarrow> string \<Rightarrow> string" where
  "parsing_prompt current_date processed_text =
     ''Extract incident information from the following description and return ONLY a valid JSON object with these exact fields:'' @
     [CHR 0x0A, CHR 0x0A] @
     ''- data_ocorrencia: Date and time in YYYY-MM-DD HH:MM format (if only date mentioned, use 00:00 for time. If relative time like '' @
     [CHR 0x22] @ ''ontem'' @ [CHR 0x22] @ '' (yesterday), '' @ [CHR 0x22] @ ''hoje'' @ [CHR 0x22] @
     '' (today), calculate based on current date '' @ current_date @ '')'' @ [CHR 0x0A] @
     ''- local: Location where incident occurred'' @ [CHR 0x0A] @
     ''- tipo_incidente: Type/category of incident '' @ [CHR 0x0A] @
     ''- impacto: Impact description including duration and affected systems'' @
     [CHR 0x0A, CHR 0x0A] @
     ''Description: '' @ [CHR 0x22] @ processed_text @ [CHR 0x22] @ [CHR 0x0A, CHR 0x0A] @
     ''Return ONLY the JSON object, no other text:''"

text \<open>
  \<^verbatim>\<open>parse_incident_structure\<close>. The outside world is passed in: \<open>getenv\<close> is the value
  of \<^verbatim>\<open>OLLAMA_URL\<close>, \<open>post url model prompt\<close> is what \<^verbatim>\<open>client.post\<close> does (an exception
  or a response), \<open>loads\<close> is \<^verbatim>\<open>json.loads\<close>, and \<open>now_p\<close>, \<open>now\<close>, \<open>now_e\<close> are the
  clock as read while building the prompt, by the date extraction and by the fallback's
  \<^verbatim>\<open>except\<close> block. The inner \<^verbatim>\<open>except json.JSONDecodeError\<close> calls the fallback without
  an error text; every other exception reaches the outer \<^verbatim>\<open>except Exception\<close>, which
  passes \<^verbatim>\<open>str(e)\<close>.
\<close>

definition parse_incident_structure ::
    "string option \<Rightarrow> (string \<Rightarrow> string \<Rightarrow> string \<Rightarrow> error + response) \<Rightarrow>
     (string \<Rightarrow> error + json) \<Rightarrow> datetime \<Rightarrow> datetime \<Rightarrow> datetime \<Rightarrow>
     string \<Rightarrow> string option \<Rightarrow> string \<Rightarrow> outcome" where
  "parse_incident_structure getenv post loads now_p now now_e incident_description ollama_url model =
     (let url = (if ollama_url = None \<or> ollama_url = Some []
                 then (case getenv of None \<Rightarrow> ''http://172.29.80.1:11434'' | Some u \<Rightarrow> u)
                 else the ollama_url);
          processed_text = preprocess_incident_text now_p incident_description;
          current_date = strftime_date now_p
      in case post (url @ ''/api/generate'') model (parsing_prompt current_date processed_text) of
           Inl e \<Rightarrow> fallback_incident_parsing now now_e incident_description (Some (error_str e))
         | Inr response \<Rightarrow>
             if status_code response = 200 then
               (case json_body response of
                  Inl e \<Rightarrow> fallback_incident_parsing now now_e incident_description (Some (error_str e))
                | Inr body \<Rightarrow>
               (case llm_response_of body of
                  Inl e \<Rightarrow> fallback_incident_parsing now now_e incident_description (Some (error_str e))
                | Inr llm_response \<Rightarrow>
               (case loads llm_response of
                  Inl (JSONDecodeError msg) \<Rightarrow>
                    fallback_incident_parsing now now_e incident_description None
                | Inl e \<Rightarrow> fallback_incident_parsing now now_e incident_description (Some (error_str e))
                | Inr parsed_json \<Rightarrow>
                    (case fill_missing required_fields parsed_json of
                       Inl e \<Rightarrow>
                         fallback_incident_parsing now now_e incident_description (Some (error_str e))
                     | Inr filled \<Rightarrow>
                         \<lparr>status = ''success'', message = None, incident = filled, method_tag = None\<rparr>))))
             else fallback_incident_parsing now now_e incident_description None)"

subsection \<open>The batch endpoint\<close>

record IncidentRequest =
  description :: string
  model :: "string option"

record IncidentResponse =
  resp_status :: string
  resp_incident :: "json option"
  resp_error :: "string option"

datatype http_exception = HTTPException nat string

fun dec :: "nat \<Rightarrow> string" where
  "dec n = (if n < 10 then [digit_char n] else dec (n div 10) @ [digit_char n])"

declare dec.simps [simp del]

fun http_exception_str :: "http_exception \<Rightarrow> string" where
  "http_exception_str (HTTPException code detail) = dec code @ '': '' @ detail"

definition error_response :: "string \<Rightarrow> IncidentResponse" where
  "error_response msg = \<lparr>resp_status = ''error'', resp_incident = None, resp_error = Some msg\<rparr>"

text \<open>
  \<^verbatim>\<open>parse_incident(request)\<close>. \<open>parser_agent\<close> is the module's global (\<^verbatim>\<open>None\<close> until
  start-up has run); \<open>process_message agent w text\<close> is the agent's answer in the world
  \<open>w\<close> (the language-model service and whatever else it touches), returning the world
  it leaves behind. The two guards raise; everything after them is inside
  \<^verbatim>\<open>try ... except Exception\<close> and returns a response. A payload that holds
  \<^verbatim>\<open>data_ocorrencia\<close> without being a dict fails the response model's validation (its
  message is abbreviated here).
\<close>

definition parse_incident ::
    "('a \<Rightarrow> 'w \<Rightarrow> string \<Rightarrow> 'w \<times> (error + string)) \<Rightarrow> (string \<Rightarrow> error + json) \<Rightarrow>
     'a option \<Rightarrow> 'w \<Rightarrow> IncidentRequest \<Rightarrow> 'w \<times> (http_exception + IncidentResponse)" where
  "parse_incident process_message loads parser_agent w request =
     (case parser_agent of
        None \<Rightarrow> (w, Inl (HTTPException 500 ''Parser agent not initialized''))
      | Some agent \<Rightarrow>
          if strip (description request) = []
          then (w, Inl (HTTPException 400 ''Description cannot be empty''))
          else
            (case process_message agent w (description request) of
               (w', Inl e) \<Rightarrow> (w', Inr (error_response (''Processing failed: '' @ error_str e)))
             | (w', Inr result) \<Rightarrow>
                 (w', Inr
                   (case loads result of
                      Inl (JSONDecodeError msg) \<Rightarrow>
                        error_response (''Failed to parse response: '' @ result)
                    | Inl e \<Rightarrow> error_response (''Processing failed: '' @ error_str e)
                    | Inr parsed_incident \<Rightarrow>
                        (case json_contains parsed_incident ''data_ocorrencia'' of
                           Inl e \<Rightarrow> error_response (''Processing failed: '' @ error_str e)
                         | Inr False \<Rightarrow>
                             error_response
                               ''Invalid incident description. Please provide a clear incident description.''
                         | Inr True \<Rightarrow>
                             (case parsed_incident of
                                JObj kvs \<Rightarrow>
                                  \<lparr>resp_status = ''success'',
                                   resp_incident = Some parsed_incident, resp_error = None\<rparr>
                              | _ \<Rightarrow>
                                  error_response
                                    ''Processing failed: Input should be a valid dictionary''))))))"

text \<open>What the loop of \<^verbatim>\<open>parse_batch_incidents\<close> appends for item \<open>i\<close> (counted from
  0): the response, or an error response when \<^verbatim>\<open>parse_incident\<close> raised.\<close>

definition item_result :: "nat \<Rightarrow> http_exception + IncidentResponse \<Rightarrow> IncidentResponse" where
  "item_result i r =
     (case r of
        Inr response \<Rightarrow> response
      | Inl e \<Rightarrow>
          error_response
            (''Failed to process incident '' @ dec (i + 1) @ '': '' @ http_exception_str e))"

fun batch_loop ::
    "('a \<Rightarrow> 'w \<Rightarrow> string \<Rightarrow> 'w \<times> (error + string)) \<Rightarrow> (string \<Rightarrow> error + json) \<Rightarrow>
     'a option \<Rightarrow> nat \<Rightarrow> 'w \<Rightarrow> IncidentRequest list \<Rightarrow> IncidentResponse list \<Rightarrow>
     'w \<times> IncidentResponse list" where
  "batch_loop process_message loads parser_agent i w [] results = (w, results)"
| "batch_loop process_message loads parser_agent i w (request # requests) results =
     (case parse_incident process_message loads parser_agent w request of
        (w', r) \<Rightarrow>
          batch_loop process_message loads parser_agent (i + 1) w' requests
            (results @ [item_result i r]))"

definition parse_batch_incidents ::
    "('a \<Rightarrow> 'w \<Rightarrow> string \<Rightarrow> 'w \<times> (error + string)) \<Rightarrow> (string \<Rightarrow> error + json) \<Rightarrow>
     'a option \<Rightarrow> 'w \<Rightarrow> IncidentRequest list \<Rightarrow>
     'w \<times> (http_exception + IncidentResponse list)" where
  "parse_batch_incidents process_message loads parser_agent w requests =
     (if parser_agent = None
      then (w, Inl (HTTPException 500 ''Parser agent not initialized''))
      else if length requests > 100
      then (w, Inl (HTTPException 400 ''Maximum 100 incidents per batch''))
      else (case batch_loop process_message loads parser_agent 0 w requests [] of
              (w', results) \<Rightarrow> (w', Inr results)))"

text \<open>The world in which item \<open>i\<close> of a batch is processed: the one the items before
  it have left.\<close>

fun world_after ::
    "('a \<Rightarrow> 'w \<Rightarrow> string \<Rightarrow> 'w \<times> (error + string)) \<Rightarrow> (string \<Rightarrow> error + json) \<Rightarrow>
     'a option \<Rightarrow> 'w \<Rightarrow> IncidentRequest list \<Rightarrow> 'w" where
  "world_after process_message loads parser_agent w [] = w"
| "world_after process_message loads parser_agent w (request # requests) =
     world_after process_message loads parser_agent
       (fst (parse_incident process_message loads parser_agent w request)) requests"

subsection \<open>Notions used in the statements\<close>

text \<open>The group numbers that occur in a pattern, and whether every way of matching
  the pattern passes through group \<open>n\<close>.\<close>

primrec group_ids :: "regex \<Rightarrow> nat set" where
  "group_ids (Atom a) = {}"
| "group_ids (Rep a lo hi g) = {}"
| "group_ids (Opt r) = group_ids r"
| "group_ids (Seq r1 r2) = group_ids r1 \<union> group_ids r2"
| "group_ids Eps = {}"
| "group_ids (Alt r1 r2) = group_ids r1 \<union> group_ids r2"
| "group_ids (Group n r) = insert n (group_ids r)"
| "group_ids WordB = {}"

primrec always_sets :: "nat \<Rightarrow> regex \<Rightarrow> bool" where
  "always_sets n (Atom a) = False"
| "always_sets n (Rep a lo hi g) = False"
| "always_sets n (Opt r) = False"
| "always_sets n (Seq r1 r2) = (always_sets n r1 \<or> always_sets n r2)"
| "always_sets n Eps = False"
| "always_sets n (Alt r1 r2) = (always_sets n r1 \<and> always_sets n r2)"
| "always_sets n (Group i r) = (i = n \<or> always_sets n r)"
| "always_sets n WordB = False"

text \<open>"No pattern of the list matches the text" (with \<^verbatim>\<open>re.IGNORECASE\<close>), and the first
  pattern of a list, in list order, that matches, with its position and match.\<close>

definition no_pattern_matches :: "regex list \<Rightarrow> string \<Rightarrow> bool" where
  "no_pattern_matches ps text = list_all (\<lambda>p. re_search p True text = None) ps"

fun first_match :: "regex list \<Rightarrow> bool \<Rightarrow> string \<Rightarrow> (nat \<times> rmatch) option" where
  "first_match [] ic text = None"
| "first_match (p # ps) ic text =
     (case re_search p ic text of
        Some m \<Rightarrow> Some (0, m)
      | None \<Rightarrow> map_option (\<lambda>(i, m). (Suc i, m)) (first_match ps ic text))"

text \<open>The call that \<^verbatim>\<open>parse_incident_structure\<close> makes, and what comes of it: the
  validated payload when the call returned status 200, a body and a completion that
  parse, and the \<^verbatim>\<open>"N/A"\<close> loop went through; otherwise nothing, with the exception that
  reached the outer \<^verbatim>\<open>except Exception\<close>, if one did (a status other than 200 and a
  completion that \<^verbatim>\<open>json.loads\<close> rejects raise nothing there).\<close>

definition generative_call ::
    "string option \<Rightarrow> (string \<Rightarrow> string \<Rightarrow> string \<Rightarrow> error + response) \<Rightarrow> datetime \<Rightarrow>
     string \<Rightarrow> string option \<Rightarrow> string \<Rightarrow> error + response" where
  "generative_call getenv post now_p incident_description ollama_url mdl =
     post ((if ollama_url = None \<or> ollama_url = Some []
            then (case getenv of None \<Rightarrow> ''http://172.29.80.1:11434'' | Some u \<Rightarrow> u)
            else the ollama_url) @ ''/api/generate'')
          mdl
          (parsing_prompt (strftime_date now_p)
             (preprocess_incident_text now_p incident_description))"

definition generative_payload :: "error + response \<Rightarrow> (string \<Rightarrow> error + json) \<Rightarrow> json option" where
  "generative_payload call loads =
     (case call of
        Inl e \<Rightarrow> None
      | Inr r \<Rightarrow>
          if status_code r = 200 then
            (case json_body r of
               Inl e \<Rightarrow> None
             | Inr body \<Rightarrow>
                 (case llm_response_of body of
                    Inl e \<Rightarrow> None
                  | Inr s \<Rightarrow>
                      (case loads s of
                         Inl e \<Rightarrow> None
                       | Inr pj \<Rightarrow>
                           (case fill_missing required_fields pj of
                              Inl e \<Rightarrow> None
                            | Inr filled \<Rightarrow> Some filled))))
          else None)"

definition raised_error :: "error + response \<Rightarrow> (string \<Rightarrow> error + json) \<Rightarrow> error option" where
  "raised_error call loads =
     (case call of
        Inl e \<Rightarrow> Some e
      | Inr r \<Rightarrow>
          if status_code r = 200 then
            (case json_body r of
               Inl e \<Rightarrow> Some e
             | Inr body \<Rightarrow>
                 (case llm_response_of body of
                    Inl e \<Rightarrow> Some e
                  | Inr s \<Rightarrow>
                      (case loads s of
                         Inl (JSONDecodeError msg) \<Rightarrow> None
                       | Inl e \<Rightarrow> Some e
                       | Inr pj \<Rightarrow>
                           (case fill_missing required_fields pj of
                              Inl e \<Rightarrow> Some e
                            | Inr filled \<Rightarrow> None))))
          else None)"

text \<open>The atoms of a pattern; the characters that the normalizer's three substitutions
  can touch (white space, comma, full stop); the number of opening square brackets of a
  text; and the test of \<^verbatim>\<open>_add_date_reference\<close>: some relative-date word occurs in the
  lower-cased text.\<close>

primrec regex_atoms :: "regex \<Rightarrow> atom list" where
  "regex_atoms (Atom a) = [a]"
| "regex_atoms (Rep a lo hi g) = [a]"
| "regex_atoms (Opt r) = regex_atoms r"
| "regex_atoms (Seq r1 r2) = regex_atoms r1 @ regex_atoms r2"
| "regex_atoms Eps = []"
| "regex_atoms (Alt r1 r2) = regex_atoms r1 @ regex_atoms r2"
| "regex_atoms (Group n r) = regex_atoms r"
| "regex_atoms WordB = []"

definition sep_char :: "char \<Rightarrow> bool" where
  "sep_char c = (isspace c \<or> c = CHR '','' \<or> c = CHR ''.'')"

definition brackets :: "string \<Rightarrow> nat" where
  "brackets s = length (filter (\<lambda>c. c = CHR ''['') s)"

definition has_relative_word :: "string \<Rightarrow> bool" where
  "has_relative_word text = list_ex (\<lambda>word. str_in word (lower text)) relative_dates"

text \<open>A non-empty string of decimal digits.\<close>

definition digits :: "string \<Rightarrow> bool" where
  "digits s = (s \<noteq> [] \<and> list_all isdigit s)"

subsection \<open>Example environments\<close>

definition example_now :: datetime where
  "example_now = \<lparr>year = 2025, month = 9, day = 7, hour = 10, minute = 30\<rparr>"

text \<open>A client whose call raises, one that answers with status 503, and one that
  answers 200 with the given completion text in the \<^verbatim>\<open>response\<close> field.\<close>

definition post_raises :: "string \<Rightarrow> string \<Rightarrow> string \<Rightarrow> error + response" where
  "post_raises url mdl prompt = Inl (TransportError ''timeout'')"

definition post_unavailable :: "string \<Rightarrow> string \<Rightarrow> string \<Rightarrow> error + response" where
  "post_unavailable url mdl prompt =
     Inr \<lparr>status_code = 503, json_body = Inl (JSONDecodeError ''Expecting value'')\<rparr>"

definition post_replies :: "string \<Rightarrow> string \<Rightarrow> string \<Rightarrow> string \<Rightarrow> error + response" where
  "post_replies reply url mdl prompt =
     Inr \<lparr>status_code = 200, json_body = Inr (JObj [(''response'', JStr reply)])\<rparr>"

definition reply_empty_object :: string where
  "reply_empty_object = ''{}''"

definition reply_null_local :: string where
  "reply_null_local =
     ''{'' @ [CHR 0x22] @ ''local'' @ [CHR 0x22] @ '': null, '' @
     [CHR 0x22] @ ''extra'' @ [CHR 0x22] @ '': 1}''"

definition quoted :: "string \<Rightarrow> string" where
  "quoted s = [CHR 0x22] @ s @ [CHR 0x22]"

definition reply_without_local :: string where
  "reply_without_local =
     ''{'' @ quoted ''data_ocorrencia'' @ '': '' @ quoted ''2025-09-06 14:00'' @ '', '' @
     quoted ''tipo_incidente'' @ '': '' @ quoted ''Falha no servidor'' @ '', '' @
     quoted ''impacto'' @ '': '' @ quoted ''2 horas'' @ ''}''"

text \<open>\<^verbatim>\<open>json.loads\<close> on the three replies above; any other text counts as malformed in
  the examples.\<close>

definition example_loads :: "string \<Rightarrow> error + json" where
  "example_loads s =
     (if s = reply_empty_object then Inr (JObj [])
      else if s = reply_null_local then Inr (JObj [(''local'', JNull), (''extra'', JInt 1)])
      else if s = reply_without_local
        then Inr (JObj [(''data_ocorrencia'', JStr ''2025-09-06 14:00''),
                        (''tipo_incidente'', JStr ''Falha no servidor''),
                        (''impacto'', JStr ''2 horas'')])
      else Inl (JSONDecodeError ''Expecting value''))"

text \<open>An agent that answers every message with the empty object and counts its calls
  in the world, and a batch whose second item is blank.\<close>

definition counting_agent :: "unit \<Rightarrow> nat \<Rightarrow> string \<Rightarrow> nat \<times> (error + string)" where
  "counting_agent agent w msg = (Suc w, Inr reply_empty_object)"

definition example_batch :: "IncidentRequest list" where
  "example_batch =
     [\<lparr>description = ''Falha no servidor'', model = None\<rparr>,
      \<lparr>description = ''  '', model = None\<rparr>,
      \<lparr>description = ''Erro na rede'', model = None\<rparr>]"

section \<open>Properties of the matcher\<close>

lemma rep_sound:
  "rep a ic g cp k lo hi p cs = Some res \<Longrightarrow>
   \<exists>xs ys. cs = xs @ ys \<and> lo \<le> length xs \<and> (\<forall>h. hi = Some h \<longrightarrow> length xs \<le> h) \<and>
           list_all (atom_match ic a) xs \<and>
           k \<lparr>prev = (if xs = [] then p else Some (last xs)), rest = ys, caps = cp\<rparr> = Some res"
proof (induction cs arbitrary: lo hi p)
  case Nil
  then show ?case by (auto split: if_splits)
next
  case (Cons c cs)
  let ?more = "hi \<noteq> Some 0 \<and> atom_match ic a c \<and>
       rep a ic g cp k (lo - 1) (map_option (\<lambda>h. h - 1) hi) (Some c) cs = Some res"
  let ?stop = "lo = 0 \<and> k \<lparr>prev = p, rest = c # cs, caps = cp\<rparr> = Some res"
  from Cons.prems have "?more \<or> ?stop"
    by (auto split: if_splits option.splits)
  then show ?case
  proof
    assume m: ?more
    from Cons.IH [of "lo - 1" "map_option (\<lambda>h. h - 1) hi" "Some c"] m
    obtain xs ys where x: "cs = xs @ ys" "lo - 1 \<le> length xs"
      "\<forall>h. map_option (\<lambda>h. h - 1) hi = Some h \<longrightarrow> length xs \<le> h"
      "list_all (atom_match ic a) xs"
      "k \<lparr>prev = (if xs = [] then Some c else Some (last xs)), rest = ys, caps = cp\<rparr> = Some res"
      by blast
    have "c # cs = (c # xs) @ ys" using x by simp
    moreover have "lo \<le> length (c # xs)" using x by simp
    moreover have "\<forall>h. hi = Some h \<longrightarrow> length (c # xs) \<le> h"
      using x(3) m by (cases hi) auto
    moreover have "list_all (atom_match ic a) (c # xs)" using x m by simp
    moreover have "k \<lparr>prev = (if c # xs = [] then p else Some (last (c # xs))), rest = ys, caps = cp\<rparr> = Some res"
      using x(5) by (cases xs) auto
    ultimately show ?thesis by blast
  next
    assume s: ?stop
    then have "c # cs = [] @ (c # cs) \<and> lo \<le> length ([]::string) \<and>
       (\<forall>h. hi = Some h \<longrightarrow> length ([]::string) \<le> h) \<and> list_all (atom_match ic a) [] \<and>
       k \<lparr>prev = (if ([]::string) = [] then p else Some (last [])), rest = c # cs, caps = cp\<rparr> = Some res"
      by simp
    then show ?thesis by blast
  qed
qed

lemma rep_inv:
  assumes "rep a ic g cp k lo hi p cs = Some res"
  shows "\<exists>s'. caps s' = cp \<and> k s' = Some res"
proof -
  from rep_sound [OF assms] obtain xs ys where
    "k \<lparr>prev = (if xs = [] then p else Some (last xs)), rest = ys, caps = cp\<rparr> = Some res"
    by blast
  moreover have "caps \<lparr>prev = (if xs = [] then p else Some (last xs)), rest = ys, caps = cp\<rparr> = cp"
    by simp
  ultimately show ?thesis by blast
qed

lemma update_keeps_set:
  "i < length c \<Longrightarrow> c ! i \<noteq> None \<Longrightarrow> c[j := Some x] ! i \<noteq> None"
  by (cases "j = i") auto

lemma inv_closed:
  "length c = L \<and> (i < L \<longrightarrow> c ! i \<noteq> None) \<Longrightarrow>
   length (c[j := Some x]) = L \<and> (i < L \<longrightarrow> c[j := Some x] ! i \<noteq> None)"
  using update_keeps_set [of i c j x] by auto

lemma rmatch_at_inv:
  "rmatch_at r ic s k = Some res \<Longrightarrow> P (caps s) \<Longrightarrow>
   (\<forall>c x n. n \<in> group_ids r \<longrightarrow> P c \<longrightarrow> P (c[n - 1 := Some x])) \<Longrightarrow>
   \<exists>s'. P (caps s') \<and> k s' = Some res"
proof (induction r arbitrary: s k)
  case (Atom a)
  then obtain c cs where "rest s = c # cs" "k (s\<lparr>prev := Some c, rest := cs\<rparr>) = Some res"
    by (auto split: list.splits if_splits)
  moreover have "P (caps (s\<lparr>prev := Some c, rest := cs\<rparr>))" using Atom.prems(2) by simp
  ultimately show ?case by blast
next
  case (Rep a lo hi g)
  from Rep.prems(1) have "rep a ic g (caps s) k lo hi (prev s) (rest s) = Some res" by simp
  from rep_inv [OF this] obtain s' where s': "caps s' = caps s" "k s' = Some res" by blast
  from s'(1) Rep.prems(2) have "P (caps s')" by simp
  with s'(2) show ?case by blast
next
  case (Opt r)
  then show ?case by (auto split: option.splits)
next
  case (Seq r1 r2)
  from Seq.prems have "rmatch_at r1 ic s (\<lambda>s'. rmatch_at r2 ic s' k) = Some res" by simp
  from Seq.IH(1) [OF this Seq.prems(2)] Seq.prems(3)
  obtain s1 where "P (caps s1)" "rmatch_at r2 ic s1 k = Some res" by auto
  from Seq.IH(2) [OF this(2) this(1)] Seq.prems(3) show ?case by auto
next
  case Eps
  then show ?case by auto
next
  case (Alt r1 r2)
  then show ?case by (auto split: option.splits)
next
  case (Group n r)
  let ?k = "\<lambda>s'. k (s'\<lparr>caps := (caps s')[n - 1 :=
                  Some (take (length (rest s) - length (rest s')) (rest s))]\<rparr>)"
  from Group.prems have "rmatch_at r ic s ?k = Some res" by simp
  from Group.IH [OF this Group.prems(2)] Group.prems(3)
  obtain s1 where s1: "P (caps s1)" "?k s1 = Some res" by auto
  let ?s2 = "s1\<lparr>caps := (caps s1)[n - 1 :=
                  Some (take (length (rest s) - length (rest s1)) (rest s))]\<rparr>"
  have "P (caps ?s2)" using s1(1) Group.prems(3) by simp
  then show ?case using s1(2) by blast
next
  case WordB
  then show ?case by (auto split: if_splits)
qed

lemma rmatch_at_sets:
  "always_sets n r \<Longrightarrow> rmatch_at r ic s k = Some res \<Longrightarrow>
   \<exists>s'. (length (caps s') = length (caps s) \<and>
         (n - 1 < length (caps s) \<longrightarrow> caps s' ! (n - 1) \<noteq> None)) \<and> k s' = Some res"
proof (induction r arbitrary: s k)
  case (Seq r1 r2)
  let ?L = "length (caps s)"
  let ?P = "\<lambda>c. length c = ?L \<and> (n - 1 < ?L \<longrightarrow> c ! (n - 1) \<noteq> None)"
  from Seq.prems(2) have m: "rmatch_at r1 ic s (\<lambda>s'. rmatch_at r2 ic s' k) = Some res" by simp
  show ?case
  proof (cases "always_sets n r1")
    case True
    from Seq.IH(1) [OF True m]
    obtain s1 where s1: "?P (caps s1)" "rmatch_at r2 ic s1 k = Some res" by blast
    have cl: "\<forall>c x j. j \<in> group_ids r2 \<longrightarrow> ?P c \<longrightarrow> ?P (c[j - 1 := Some x])"
      by (intro allI impI inv_closed)
    show ?thesis
      by (rule rmatch_at_inv [OF s1(2), where P = ?P, OF s1(1) cl])
  next
    case False
    with Seq.prems(1) have a2: "always_sets n r2" by simp
    have "\<exists>s1. length (caps s1) = ?L \<and> rmatch_at r2 ic s1 k = Some res"
      by (rule rmatch_at_inv [OF m, where P = "\<lambda>c. length c = ?L"]) simp_all
    then obtain s1 where s1: "length (caps s1) = ?L" "rmatch_at r2 ic s1 k = Some res" by blast
    from Seq.IH(2) [OF a2 s1(2)] show ?thesis unfolding s1(1) .
  qed
next
  case (Alt r1 r2)
  from Alt.prems(1) have a: "always_sets n r1" "always_sets n r2" by simp_all
  show ?case
  proof (cases "rmatch_at r1 ic s k")
    case None
    with Alt.prems(2) have "rmatch_at r2 ic s k = Some res" by simp
    from Alt.IH(2) [OF a(2) this] show ?thesis .
  next
    case (Some x)
    with Alt.prems(2) have "rmatch_at r1 ic s k = Some res" by simp
    from Alt.IH(1) [OF a(1) this] show ?thesis .
  qed
next
  case (Group i r)
  let ?L = "length (caps s)"
  let ?P = "\<lambda>c. length c = ?L \<and> (n - 1 < ?L \<longrightarrow> c ! (n - 1) \<noteq> None)"
  let ?k = "\<lambda>s'. k (s'\<lparr>caps := (caps s')[i - 1 :=
                  Some (take (length (rest s) - length (rest s')) (rest s))]\<rparr>)"
  from Group.prems(2) have m: "rmatch_at r ic s ?k = Some res" by simp
  show ?case
  proof (cases "i = n")
    case True
    have "\<exists>s1. length (caps s1) = ?L \<and> ?k s1 = Some res"
      by (rule rmatch_at_inv [OF m, where P = "\<lambda>c. length c = ?L"]) simp_all
    then obtain s1 where s1: "length (caps s1) = ?L" "?k s1 = Some res" by blast
    let ?s2 = "s1\<lparr>caps := (caps s1)[i - 1 :=
                  Some (take (length (rest s) - length (rest s1)) (rest s))]\<rparr>"
    have "?P (caps ?s2)" using s1(1) True by simp
    with s1(2) show ?thesis by blast
  next
    case False
    with Group.prems(1) have "always_sets n r" by simp
    from Group.IH [OF this m]
    obtain s1 where s1: "?P (caps s1)" "?k s1 = Some res" by blast
    let ?s2 = "s1\<lparr>caps := (caps s1)[i - 1 :=
                  Some (take (length (rest s) - length (rest s1)) (rest s))]\<rparr>"
    have "?P (caps ?s2)" using inv_closed [OF s1(1), of "i - 1"] by simp
    with s1(2) show ?thesis by blast
  qed
qed simp_all

lemma search_from_groups:
  "search_from r ic sk p cs = Some m \<Longrightarrow>
   \<exists>p' cs' s'. rmatch_at r ic \<lparr>prev = p', rest = cs', caps = replicate (ngroups r) None\<rparr> Some = Some s'
      \<and> groups m = caps s'"
proof (induction cs arbitrary: sk p)
  case Nil
  then obtain s' where "rmatch_at r ic \<lparr>prev = p, rest = [], caps = replicate (ngroups r) None\<rparr> Some = Some s'"
    "groups m = caps s'" by (auto split: option.splits)
  then show ?case by blast
next
  case (Cons c cs)
  show ?case
  proof (cases "rmatch_at r ic \<lparr>prev = p, rest = c # cs, caps = replicate (ngroups r) None\<rparr> Some")
    case None
    with Cons.prems have "search_from r ic (sk @ [c]) (Some c) cs = Some m" by simp
    from Cons.IH [OF this] show ?thesis .
  next
    case (Some s')
    with Cons.prems have "groups m = caps s'" by auto
    with Some show ?thesis by blast
  qed
qed

lemma re_search_groups:
  assumes "re_search r ic t = Some m" and "always_sets 1 r" and "ngroups r = 1"
  shows "\<exists>g. groups m = [Some g]"
proof -
  from search_from_groups [OF assms(1) [unfolded re_search_def]] assms(3)
  obtain p' cs' s' where s: "rmatch_at r ic \<lparr>prev = p', rest = cs', caps = [None]\<rparr> Some = Some s'"
     "groups m = caps s'" by auto
  from rmatch_at_sets [OF assms(2) s(1)]
  have "length (caps s') = 1 \<and> caps s' ! 0 \<noteq> None" by simp
  then show ?thesis using s(2) by (cases "caps s'") auto
qed

lemma patterns_one_group:
  "list_all (\<lambda>p. always_sets 1 p \<and> ngroups p = 1)
     (location_patterns @ type_patterns @ impact_patterns)"
  by code_simp

section \<open>The location extractor\<close>

lemma location_loop_first_match:
  "list_all (\<lambda>p. always_sets 1 p \<and> ngroups p = 1) ps \<Longrightarrow>
   (case first_match ps True text of
      None \<Rightarrow> extract_location_loop ps text = Inr ''N/A''
    | Some (i, m) \<Rightarrow> \<exists>g. groups m = [Some g] \<and> extract_location_loop ps text = Inr (strip g))"
proof (induction ps)
  case Nil
  then show ?case by simp
next
  case (Cons p ps)
  show ?case
  proof (cases "re_search p True text")
    case None
    with Cons show ?thesis by (auto split: option.splits)
  next
    case (Some m)
    from Cons.prems have "always_sets 1 p" "ngroups p = 1" by simp_all
    from re_search_groups [OF Some this] obtain g where "groups m = [Some g]" by blast
    with Some show ?thesis by (simp add: group_strip_def group_def)
  qed
qed

text \<open>
  Claim C9, as amended. For every input text the location extractor tries its three
  patterns in declared order and returns the trimmed capture of the first pattern that
  matches; that capture is always the first group, for all three patterns, because each
  pattern has exactly one capturing group (the match's \<open>groups\<close> is a one-element list,
  so the branch for a second group is never taken). When no pattern matches the result
  is \<^verbatim>\<open>"N/A"\<close>. The extractor never raises.
\<close>

theorem extract_location_first_group:
  "(case first_match location_patterns True text of
      None \<Rightarrow> extract_location text = Inr ''N/A''
    | Some (i, m) \<Rightarrow> \<exists>g. groups m = [Some g] \<and> extract_location text = Inr (strip g))"
  unfolding extract_location_def
  using patterns_one_group by (intro location_loop_first_match) simp

text \<open>Claim C9 as stated fails: on a text that the first pattern (the office / branch /
  site phrase) matches, the match has one group only, and the extractor returns that
  first group; there is no second group to return.\<close>

theorem extract_location_second_group_counterexample:
  "map_option groups (re_search (location_patterns ! 0) True ''na sede Lisboa, ontem'') =
     Some [Some ''Lisboa'']
   \<and> map_option fst (first_match location_patterns True ''na sede Lisboa, ontem'') = Some 0
   \<and> extract_location ''na sede Lisboa, ontem'' = Inr ''Lisboa''"
  by code_simp

section \<open>Texts that no pattern matches\<close>

lemma location_loop_none:
  "no_pattern_matches ps text \<Longrightarrow> extract_location_loop ps text = Inr ''N/A''"
  by (induction ps) (auto simp: no_pattern_matches_def)

lemma type_loop_none:
  "no_pattern_matches ps text \<Longrightarrow> extract_incident_type_loop ps text = Inr type_sentinel"
  by (induction ps) (auto simp: no_pattern_matches_def)

lemma impact_loop_none:
  "no_pattern_matches ps text \<Longrightarrow> extract_impact_loop ps text = Inr (truncate100 text)"
  by (induction ps) (auto simp: no_pattern_matches_def)

text \<open>
  Claim C6, as amended. For every input text that no location pattern, no incident-type
  pattern and no impact pattern matches, the three field extractors return \<^verbatim>\<open>"N/A"\<close>,
  the incident-type sentinel, and the raw text itself when it has at most 100
  characters, else its first 100 characters followed by \<^verbatim>\<open>"..."\<close>; and whenever the
  date extraction returns (raises no exception), the deterministic extractor returns the
  success record holding exactly these values.
\<close>

theorem no_match_fields:
  assumes "no_pattern_matches location_patterns text"
    and "no_pattern_matches type_patterns text"
    and "no_pattern_matches impact_patterns text"
  shows "extract_location text = Inr ''N/A'' \<and>
         extract_incident_type text = Inr type_sentinel \<and>
         extract_impact text = Inr (if length text \<le> 100 then text else take 100 text @ ''...'') \<and>
         (\<forall>d. extract_date_info now text = Inr d \<longrightarrow>
            fallback_incident_parsing now now_e text err =
              \<lparr>status = ''success'', message = None,
               incident = incident_dict d ''N/A'' type_sentinel
                            (if length text \<le> 100 then text else take 100 text @ ''...''), method_tag = Some ''regex_fallback''\<rparr>)"
proof -
  have l: "extract_location text = Inr ''N/A''"
    using assms(1) by (simp add: extract_location_def location_loop_none)
  have t: "extract_incident_type text = Inr type_sentinel"
    using assms(2) by (simp add: extract_incident_type_def type_loop_none)
  have i: "extract_impact text = Inr (if length text \<le> 100 then text else take 100 text @ ''...'')"
    using assms(3) by (simp add: extract_impact_def impact_loop_none truncate100_def)
  show ?thesis
    using l t i by (simp add: fallback_incident_parsing_def fallback_try_def)
qed

theorem no_match_fields_witness:
  "no_pattern_matches location_patterns ''abc'' \<and> no_pattern_matches type_patterns ''abc'' \<and>
   no_pattern_matches impact_patterns ''abc'' \<and>
   extract_date_info example_now ''abc'' = Inr ''2025-09-07 00:00'' \<and>
   fallback_incident_parsing example_now example_now ''abc'' None =
     \<lparr>status = ''success'', message = None,
      incident = incident_dict ''2025-09-07 00:00'' ''N/A'' type_sentinel ''abc'', method_tag = Some ''regex_fallback''\<rparr>"
proof -
  have h1: "no_pattern_matches location_patterns ''abc''" by code_simp
  have h2: "no_pattern_matches type_patterns ''abc''" by code_simp
  have h3: "no_pattern_matches impact_patterns ''abc''" by code_simp
  have h4: "extract_date_info example_now ''abc'' = Inr ''2025-09-07 00:00''" by code_simp
  from no_match_fields [OF h1 h2 h3, of example_now example_now None] h4
  have "fallback_incident_parsing example_now example_now ''abc'' None =
     \<lparr>status = ''success'', message = None,
      incident = incident_dict ''2025-09-07 00:00'' ''N/A'' type_sentinel ''abc'', method_tag = Some ''regex_fallback''\<rparr>" by simp
  with h1 h2 h3 h4 show ?thesis by blast
qed

text \<open>Claim C6 as stated fails on \<^verbatim>\<open>"30h"\<close>: no location, type or impact pattern
  matches it, but the hour 30 makes the date extraction raise, and the record returned
  is the error record, whose incident type is \<^verbatim>\<open>"Erro no processamento"\<close>.\<close>

theorem no_match_error_record_counterexample:
  "no_pattern_matches location_patterns ''30h'' \<and> no_pattern_matches type_patterns ''30h'' \<and>
   no_pattern_matches impact_patterns ''30h'' \<and>
   incident (fallback_incident_parsing example_now example_now ''30h'' None) =
     incident_dict ''2025-09-07 10:30'' ''N/A'' ''Erro no processamento'' ''30h'' \<and>
   ''Erro no processamento'' \<noteq> type_sentinel"
  by code_simp

section \<open>The error record\<close>

text \<open>
  Claim C7, as amended. When one of the four extractions raises, the caller receives a
  record with status \<^verbatim>\<open>"error"\<close>, a message \<^verbatim>\<open>"Parsing failed: "\<close> followed by the error
  text (the caller's, when it passed a non-empty one, else the exception's), and an
  incident whose timestamp is the current date and time of day, whose location is
  \<^verbatim>\<open>"N/A"\<close>, whose incident type is \<^verbatim>\<open>"Erro no processamento"\<close>, and whose impact is the raw
  text when it has at most 100 characters, else its first 100 characters followed by
  \<^verbatim>\<open>"..."\<close>.
\<close>

theorem error_record:
  assumes "fallback_try now text = Inl e"
  shows "fallback_incident_parsing now now_e text err =
           \<lparr>status = ''error'',
            message = Some (''Parsing failed: '' @
                        (if err = None \<or> err = Some [] then error_str e else the err)),
            incident = incident_dict (strftime now_e) ''N/A'' ''Erro no processamento''
                         (if length text \<le> 100 then text else take 100 text @ ''...''), method_tag = None\<rparr>"
  using assms by (cases err) (simp_all add: fallback_incident_parsing_def truncate100_def)

theorem error_record_witness:
  "fallback_try example_now ''30h'' = Inl (ValueError ''hour must be in 0..23'') \<and>
   fallback_incident_parsing example_now example_now ''30h'' None =
           \<lparr>status = ''error'', message = Some ''Parsing failed: hour must be in 0..23'',
            incident = incident_dict ''2025-09-07 10:30'' ''N/A'' ''Erro no processamento'' ''30h'', method_tag = None\<rparr>"
proof -
  have h: "fallback_try example_now ''30h'' = Inl (ValueError ''hour must be in 0..23'')"
    by code_simp
  have s: "strftime example_now = ''2025-09-07 10:30''" by code_simp
  from error_record [OF h, of example_now None] s h show ?thesis by simp
qed

text \<open>Claim C7 as stated fails: the error record's timestamp carries the time of day
  of the clock, not 00:00, and its incident type is not the no-match sentinel.\<close>

theorem error_record_sentinels_counterexample:
  "fallback_try example_now ''30h'' = Inl (ValueError ''hour must be in 0..23'') \<and>
   incident (fallback_incident_parsing example_now example_now ''30h'' None) =
     incident_dict ''2025-09-07 10:30'' ''N/A'' ''Erro no processamento'' ''30h'' \<and>
   ''2025-09-07 10:30'' \<noteq> ''2025-09-07 00:00'' \<and> ''Erro no processamento'' \<noteq> type_sentinel"
  by code_simp

section \<open>Date extraction\<close>

text \<open>
  Claim C3, evaluated where the code departs from it. The claim asks for two days
  before the current date when the text contains \<^verbatim>\<open>anteontem\<close>; with the clock at
  2025-09-07 that is 2025-09-05. The code returns 2025-09-06: \<^verbatim>\<open>anteontem\<close> contains
  \<^verbatim>\<open>ontem\<close>, and the test for \<^verbatim>\<open>ontem\<close> comes first.
\<close>

theorem anteontem_counts_as_ontem:
  "extract_date_info example_now (''anteontem '' @ [CHR 0xE0] @ ''s 14h'') = Inr ''2025-09-06 14:00''"
  by code_simp

lemma str_in_iff: "str_in sub s \<longleftrightarrow> (\<exists>pre suf. s = pre @ sub @ suf)"
proof (induction s)
  case Nil
  then show ?case by simp
next
  case (Cons c cs)
  show ?case
  proof
    assume "str_in sub (c # cs)"
    then consider "prefix sub (c # cs)" | "str_in sub cs" by auto
    then show "\<exists>pre suf. c # cs = pre @ sub @ suf"
    proof cases
      case 1
      then obtain zs where "c # cs = sub @ zs" by (auto simp: prefix_def)
      then have "c # cs = [] @ sub @ zs" by simp
      then show ?thesis by blast
    next
      case 2
      with Cons.IH obtain pre suf where "cs = pre @ sub @ suf" by blast
      then have "c # cs = (c # pre) @ sub @ suf" by simp
      then show ?thesis by blast
    qed
  next
    assume "\<exists>pre suf. c # cs = pre @ sub @ suf"
    then obtain pre suf where e: "c # cs = pre @ sub @ suf" by blast
    show "str_in sub (c # cs)"
    proof (cases pre)
      case Nil
      with e have "prefix sub (c # cs)" by (simp add: prefix_def)
      then show ?thesis by simp
    next
      case (Cons a pre')
      with e have "cs = pre' @ sub @ suf" by simp
      with Cons.IH have "str_in sub cs" by blast
      then show ?thesis by simp
    qed
  qed
qed

lemma anteontem_contains_ontem: "str_in ''anteontem'' s \<Longrightarrow> str_in ''ontem'' s"
proof -
  assume "str_in ''anteontem'' s"
  then obtain pre suf where "s = pre @ ''anteontem'' @ suf" unfolding str_in_iff by blast
  then have "s = (pre @ ''ante'') @ ''ontem'' @ suf" by simp
  then show ?thesis unfolding str_in_iff by blast
qed

text \<open>The third branch of the chain can never be taken.\<close>

lemma target_date_two_cases:
  "target_date now tlow =
     (if str_in ''ontem'' tlow \<or> str_in ''yesterday'' tlow then minus_days now 1 else Inr now)"
  using anteontem_contains_ontem [of tlow] by (auto simp: target_date_def)

lemma target_date_ok: "1 < year now \<Longrightarrow> \<exists>d. target_date now tlow = Inr d"
  by (simp add: target_date_two_cases prev_day_def)

lemma group_rep:
  assumes "rmatch_at (Group n (Rep a lo hi g)) ic s k = Some res"
  shows "\<exists>xs s'. lo \<le> length xs \<and> list_all (atom_match ic a) xs \<and>
           caps s' = (caps s)[n - 1 := Some xs] \<and> k s' = Some res"
proof -
  let ?k = "\<lambda>s'. k (s'\<lparr>caps := (caps s')[n - 1 :=
                  Some (take (length (rest s) - length (rest s')) (rest s))]\<rparr>)"
  from assms have "rep a ic g (caps s) ?k lo hi (prev s) (rest s) = Some res" by simp
  from rep_sound [OF this] obtain xs ys where x: "rest s = xs @ ys" "lo \<le> length xs"
    "list_all (atom_match ic a) xs"
    "?k \<lparr>prev = (if xs = [] then prev s else Some (last xs)), rest = ys, caps = caps s\<rparr> = Some res"
    by blast
  let ?s' = "\<lparr>prev = (if xs = [] then prev s else Some (last xs)), rest = ys,
              caps = (caps s)[n - 1 := Some xs]\<rparr>"
  from x(4) x(1) have "k ?s' = Some res" by simp
  moreover have "caps ?s' = (caps s)[n - 1 := Some xs]" by simp
  ultimately show ?thesis using x(2,3) by blast
qed

lemma dg_match: "atom_match False dg c = isdigit c"
  by (simp add: dg_def)

lemma hh_group:
  assumes "rmatch_at (Group n hh) False s k = Some res"
  shows "\<exists>xs s'. digits xs \<and> caps s' = (caps s)[n - 1 := Some xs] \<and> k s' = Some res"
proof -
  from group_rep [OF assms [unfolded hh_def]]
  obtain xs s' where "1 \<le> length xs" "list_all (atom_match False dg) xs"
    "caps s' = (caps s)[n - 1 := Some xs]" "k s' = Some res" by blast
  moreover from this have "digits xs" by (auto simp: digits_def dg_match [abs_def])
  ultimately show ?thesis by blast
qed

lemma mm_group:
  assumes "rmatch_at (Group n mm) False s k = Some res"
  shows "\<exists>xs s'. digits xs \<and> caps s' = (caps s)[n - 1 := Some xs] \<and> k s' = Some res"
proof -
  from group_rep [OF assms [unfolded mm_def]]
  obtain xs s' where "2 \<le> length xs" "list_all (atom_match False dg) xs"
    "caps s' = (caps s)[n - 1 := Some xs]" "k s' = Some res" by blast
  moreover from this have "digits xs" by (auto simp: digits_def dg_match [abs_def])
  ultimately show ?thesis by blast
qed

lemma atom_keeps_caps:
  assumes "rmatch_at (Atom a) ic s k = Some res"
  shows "\<exists>s'. caps s' = caps s \<and> k s' = Some res"
  by (rule rmatch_at_inv [OF assms, where P = "\<lambda>c. c = caps s"]) simp_all

lemma time_pattern_1:
  assumes "re_search (time_patterns ! 0) False t = Some m"
  shows "\<exists>g1 g2. groups m = [Some g1, g2] \<and> digits g1 \<and> (g2 = None \<or> (\<exists>y. g2 = Some y \<and> digits y))"
proof -
  let ?r = "Seq (Group 1 hh) (Seq (Atom (Lit CHR ''h'')) (Seq (Opt (Group 2 mm)) Eps))"
  have r: "time_patterns ! 0 = ?r" by (simp add: time_patterns_def seqs_def)
  have n: "replicate (ngroups ?r) None = [None, None]"
    by (simp add: hh_def mm_def numeral_2_eq_2)
  from search_from_groups [OF assms [unfolded re_search_def r], unfolded n]
  obtain p' cs' s' where s: "rmatch_at ?r False \<lparr>prev = p', rest = cs', caps = [None, None]\<rparr> Some = Some s'"
     "groups m = caps s'" by blast
  let ?s0 = "\<lparr>prev = p', rest = cs', caps = [None, None]\<rparr>"
  from s(1) have "rmatch_at (Group 1 hh) False ?s0
      (\<lambda>s. rmatch_at (Atom (Lit CHR ''h'')) False s (\<lambda>s. rmatch_at (Opt (Group 2 mm)) False s Some)) = Some s'"
    by simp
  from hh_group [OF this] obtain g1 s1 where s1: "digits g1" "caps s1 = [Some g1, None]"
    "rmatch_at (Atom (Lit CHR ''h'')) False s1 (\<lambda>s. rmatch_at (Opt (Group 2 mm)) False s Some) = Some s'"
    by auto
  from atom_keeps_caps [OF s1(3)] s1(2) obtain s2 where s2: "caps s2 = [Some g1, None]"
    "rmatch_at (Opt (Group 2 mm)) False s2 Some = Some s'" by auto
  show ?thesis
  proof (cases "rmatch_at (Group 2 mm) False s2 Some")
    case None
    with s2 have "s' = s2" by simp
    with s2(1) s(2) s1(1) show ?thesis by simp
  next
    case (Some x)
    with s2(2) have "rmatch_at (Group 2 mm) False s2 Some = Some s'" by simp
    from mm_group [OF this] s2(1) obtain y where "digits y" "caps s' = [Some g1, Some y]" by auto
    with s(2) s1(1) show ?thesis by simp
  qed
qed

lemma time_pattern_2:
  assumes "re_search (time_patterns ! 1) False t = Some m"
  shows "\<exists>g1 y. groups m = [Some g1, Some y] \<and> digits g1 \<and> digits y"
proof -
  let ?r = "Seq (Group 1 hh) (Seq (Atom (Lit CHR '':'')) (Seq (Group 2 mm) Eps))"
  have r: "time_patterns ! 1 = ?r" by (simp add: time_patterns_def seqs_def)
  have n: "replicate (ngroups ?r) None = [None, None]"
    by (simp add: hh_def mm_def numeral_2_eq_2)
  from search_from_groups [OF assms [unfolded re_search_def r], unfolded n]
  obtain p' cs' s' where s: "rmatch_at ?r False \<lparr>prev = p', rest = cs', caps = [None, None]\<rparr> Some = Some s'"
     "groups m = caps s'" by blast
  let ?s0 = "\<lparr>prev = p', rest = cs', caps = [None, None]\<rparr>"
  from s(1) have "rmatch_at (Group 1 hh) False ?s0
      (\<lambda>s. rmatch_at (Atom (Lit CHR '':'')) False s (\<lambda>s. rmatch_at (Group 2 mm) False s Some)) = Some s'"
    by simp
  from hh_group [OF this] obtain g1 s1 where s1: "digits g1" "caps s1 = [Some g1, None]"
    "rmatch_at (Atom (Lit CHR '':'')) False s1 (\<lambda>s. rmatch_at (Group 2 mm) False s Some) = Some s'"
    by auto
  from atom_keeps_caps [OF s1(3)] s1(2) obtain s2 where s2: "caps s2 = [Some g1, None]"
    "rmatch_at (Group 2 mm) False s2 Some = Some s'" by auto
  from mm_group [OF s2(2)] s2(1) obtain y where "digits y" "caps s' = [Some g1, Some y]" by auto
  with s(2) s1(1) show ?thesis by simp
qed

lemma time_pattern_3:
  assumes "re_search (time_patterns ! 2) False t = Some m"
  shows "\<exists>g1. groups m = [Some g1] \<and> digits g1"
proof -
  let ?w = "word [CHR 0xE0, CHR ''s'', CHR '' '']"
  let ?r = "Seq ?w (Seq (Group 1 hh) Eps)"
  have r: "time_patterns ! 2 = ?r" by (simp add: time_patterns_def seqs_def)
  have n: "replicate (ngroups ?r) None = [None]" by (simp add: hh_def word_def)
  have g: "group_ids ?w = {}" by (simp add: word_def)
  from search_from_groups [OF assms [unfolded re_search_def r], unfolded n]
  obtain p' cs' s' where s: "rmatch_at ?r False \<lparr>prev = p', rest = cs', caps = [None]\<rparr> Some = Some s'"
     "groups m = caps s'" by blast
  let ?s0 = "\<lparr>prev = p', rest = cs', caps = [None]\<rparr>"
  from s(1) have m1: "rmatch_at ?w False ?s0 (\<lambda>s. rmatch_at (Group 1 hh) False s Some) = Some s'"
    by simp
  have "\<exists>s1. caps s1 = [None] \<and> rmatch_at (Group 1 hh) False s1 Some = Some s'"
    by (rule rmatch_at_inv [OF m1, where P = "\<lambda>c. c = [None]"]) (simp_all add: g)
  then obtain s1 where s1: "caps s1 = [None]" "rmatch_at (Group 1 hh) False s1 Some = Some s'"
    by blast
  from hh_group [OF s1(2)] s1(1) obtain g1 where "digits g1" "caps s' = [Some g1]" by auto
  with s(2) show ?thesis by simp
qed

lemma py_int_digits: "digits g \<Longrightarrow> \<exists>n. py_int (Some g) = Inr n"
  by (simp add: py_int_def digits_def)

lemma first_time_total: "\<exists>h mi. first_time time_patterns t = Inr (h, mi)"
proof -
  have tp: "time_patterns = [time_patterns ! 0, time_patterns ! 1, time_patterns ! 2]"
    by (simp add: time_patterns_def)
  show ?thesis
  proof (cases "re_search (time_patterns ! 0) False t")
    case (Some m)
    from time_pattern_1 [OF Some] obtain g1 g2 where g: "groups m = [Some g1, g2]" "digits g1"
      "g2 = None \<or> (\<exists>y. g2 = Some y \<and> digits y)" by blast
    from py_int_digits [OF g(2)] obtain h where h: "py_int (Some g1) = Inr h" by blast
    from g(3) show ?thesis
    proof
      assume "g2 = None"
      with Some g h have "first_time time_patterns t = Inr (h, 0)"
        by (subst tp) (simp add: group_def)
      then show ?thesis by blast
    next
      assume "\<exists>y. g2 = Some y \<and> digits y"
      then obtain y where y: "g2 = Some y" "digits y" by blast
      from py_int_digits [OF y(2)] obtain mi where "py_int (Some y) = Inr mi" by blast
      with Some g h y have "first_time time_patterns t = Inr (h, mi)"
        by (subst tp) (auto simp: group_def digits_def)
      then show ?thesis by blast
    qed
  next
    case n0: None
    show ?thesis
    proof (cases "re_search (time_patterns ! 1) False t")
      case (Some m)
      from time_pattern_2 [OF Some] obtain g1 y where g: "groups m = [Some g1, Some y]" "digits g1"
        "digits y" by blast
      from py_int_digits [OF g(2)] obtain h where h: "py_int (Some g1) = Inr h" by blast
      from py_int_digits [OF g(3)] obtain mi where "py_int (Some y) = Inr mi" by blast
      with Some n0 g h have "first_time time_patterns t = Inr (h, mi)"
        by (subst tp) (auto simp: group_def digits_def)
      then show ?thesis by blast
    next
      case n1: None
      show ?thesis
      proof (cases "re_search (time_patterns ! 2) False t")
        case (Some m)
        from time_pattern_3 [OF Some] obtain g1 where g: "groups m = [Some g1]" "digits g1" by blast
        from py_int_digits [OF g(2)] obtain h where h: "py_int (Some g1) = Inr h" by blast
        with Some n0 n1 g have "first_time time_patterns t = Inr (h, 0)"
          by (subst tp) (simp add: group_def)
        then show ?thesis by blast
      next
        case None
        with n0 n1 have "first_time time_patterns t = Inr (0, 0)"
          by (subst tp) simp
        then show ?thesis by blast
      qed
    qed
  qed
qed

lemma location_loop_total:
  "list_all (\<lambda>p. always_sets 1 p \<and> ngroups p = 1) ps \<Longrightarrow> \<exists>r. extract_location_loop ps text = Inr r"
proof (induction ps)
  case Nil
  then show ?case by simp
next
  case (Cons p ps)
  show ?case
  proof (cases "re_search p True text")
    case None
    with Cons show ?thesis by simp
  next
    case (Some m)
    from Cons.prems have "always_sets 1 p" "ngroups p = 1" by simp_all
    from re_search_groups [OF Some this] obtain g where "groups m = [Some g]" by blast
    with Some show ?thesis by (simp add: group_strip_def group_def)
  qed
qed

lemma type_loop_total:
  "list_all (\<lambda>p. always_sets 1 p \<and> ngroups p = 1) ps \<Longrightarrow> \<exists>r. extract_incident_type_loop ps text = Inr r"
proof (induction ps)
  case Nil
  then show ?case by simp
next
  case (Cons p ps)
  show ?case
  proof (cases "re_search p True text")
    case None
    with Cons show ?thesis by simp
  next
    case (Some m)
    from Cons.prems have "always_sets 1 p" "ngroups p = 1" by simp_all
    from re_search_groups [OF Some this] obtain g where "groups m = [Some g]" by blast
    with Some show ?thesis by (simp add: group_strip_def group_def)
  qed
qed

lemma impact_loop_total:
  "list_all (\<lambda>p. always_sets 1 p \<and> ngroups p = 1) ps \<Longrightarrow> \<exists>r. extract_impact_loop ps text = Inr r"
proof (induction ps)
  case Nil
  then show ?case by simp
next
  case (Cons p ps)
  show ?case
  proof (cases "re_search p True text")
    case None
    with Cons show ?thesis by simp
  next
    case (Some m)
    from Cons.prems have "always_sets 1 p" "ngroups p = 1" by simp_all
    from re_search_groups [OF Some this] obtain g where "groups m = [Some g]" by blast
    with Some show ?thesis by (simp add: group_strip_def group_def)
  qed
qed

lemma field_extractors_total:
  "\<exists>l ty i. extract_location text = Inr l \<and> extract_incident_type text = Inr ty \<and>
             extract_impact text = Inr i"
proof -
  from patterns_one_group have
    "list_all (\<lambda>p. always_sets 1 p \<and> ngroups p = 1) location_patterns"
    "list_all (\<lambda>p. always_sets 1 p \<and> ngroups p = 1) type_patterns"
    "list_all (\<lambda>p. always_sets 1 p \<and> ngroups p = 1) impact_patterns"
    by simp_all
  from location_loop_total [OF this(1)] type_loop_total [OF this(2)] impact_loop_total [OF this(3)]
  show ?thesis unfolding extract_location_def extract_incident_type_def extract_impact_def
    by blast
qed

lemma fallback_status:
  "status (fallback_incident_parsing now now_e text err) =
     (case extract_date_info now text of Inl e \<Rightarrow> ''error'' | Inr d \<Rightarrow> ''success'')"
proof -
  from field_extractors_total [of "text"] obtain l ty i where
    "extract_location text = Inr l" "extract_incident_type text = Inr ty"
    "extract_impact text = Inr i" by blast
  then show ?thesis
    by (simp add: fallback_incident_parsing_def fallback_try_def Let_def split: sum.splits)
qed

text \<open>
  Claim C10. The internal-error branch of the deterministic extractor is reachable from
  ordinary text: on \<^verbatim>\<open>"30h"\<close> and on \<^verbatim>\<open>"14h75"\<close> the date extraction raises
  \<^verbatim>\<open>ValueError\<close> and the extractor returns the error-status record. Every text has a
  first matched hour and minute (0 and 0 when no time pattern matches); when the hour is
  at most 23 and the minute at most 59 the date extraction raises nothing and the
  success-status record is returned, and otherwise it raises \<^verbatim>\<open>ValueError\<close> and the
  error-status record is returned. The clock is assumed to be later than year 1, so
  that going back a day cannot overflow.
\<close>

theorem date_error_branch:
  assumes "1 < year now"
  shows "extract_date_info now ''30h'' = Inl (ValueError ''hour must be in 0..23'') \<and>
         status (fallback_incident_parsing now now_e ''30h'' err) = ''error'' \<and>
         extract_date_info now ''14h75'' = Inl (ValueError ''minute must be in 0..59'') \<and>
         status (fallback_incident_parsing now now_e ''14h75'' err) = ''error'' \<and>
         (\<forall>text. \<exists>h mi. first_time time_patterns (lower text) = Inr (h, mi) \<and>
            (if h \<le> 23 \<and> mi \<le> 59
             then (\<exists>d. extract_date_info now text = Inr d) \<and>
                  status (fallback_incident_parsing now now_e text err) = ''success''
             else (\<exists>msg. extract_date_info now text = Inl (ValueError msg)) \<and>
                  status (fallback_incident_parsing now now_e text err) = ''error''))"
proof -
  have t1: "first_time time_patterns (lower ''30h'') = Inr (30, 0)" by code_simp
  have t2: "first_time time_patterns (lower ''14h75'') = Inr (14, 75)" by code_simp
  have m1: "target_date now (lower ''30h'') = Inr now" 
    unfolding target_date_two_cases by code_simp
  have m2: "target_date now (lower ''14h75'') = Inr now"
    unfolding target_date_two_cases by code_simp
  have e1: "extract_date_info now ''30h'' = Inl (ValueError ''hour must be in 0..23'')"
    by (simp add: extract_date_info_def Let_def m1 t1 replace_hm_def)
  have e2: "extract_date_info now ''14h75'' = Inl (ValueError ''minute must be in 0..59'')"
    by (simp add: extract_date_info_def Let_def m2 t2 replace_hm_def)
  have u: "\<exists>h mi. first_time time_patterns (lower tx) = Inr (h, mi) \<and>
            (if h \<le> 23 \<and> mi \<le> 59
             then (\<exists>d. extract_date_info now tx = Inr d) \<and>
                  status (fallback_incident_parsing now now_e tx err) = ''success''
             else (\<exists>msg. extract_date_info now tx = Inl (ValueError msg)) \<and>
                  status (fallback_incident_parsing now now_e tx err) = ''error'')" for tx
  proof -
    from first_time_total obtain h mi where f: "first_time time_patterns (lower tx) = Inr (h, mi)"
      by blast
    from target_date_ok [OF assms] obtain td where td: "target_date now (lower tx) = Inr td"
      by blast
    have "if h \<le> 23 \<and> mi \<le> 59
             then (\<exists>d. extract_date_info now tx = Inr d) \<and>
                  status (fallback_incident_parsing now now_e tx err) = ''success''
             else (\<exists>msg. extract_date_info now tx = Inl (ValueError msg)) \<and>
                  status (fallback_incident_parsing now now_e tx err) = ''error''"
      using f td by (simp add: fallback_status extract_date_info_def Let_def replace_hm_def)
    with f show ?thesis by blast
  qed
  from e1 e2 u show ?thesis by (simp add: fallback_status)
qed

theorem date_error_branch_witness:
  "1 < year example_now \<and>
   first_time time_patterns (lower (''ontem '' @ [CHR 0xE0] @ ''s 14h'')) = Inr (14, 0) \<and>
   extract_date_info example_now (''ontem '' @ [CHR 0xE0] @ ''s 14h'') = Inr ''2025-09-06 14:00'' \<and>
   status (fallback_incident_parsing example_now example_now (''ontem '' @ [CHR 0xE0] @ ''s 14h'') None) = ''success'' \<and>
   status (fallback_incident_parsing example_now example_now ''30h'' None) = ''error''"
proof -
  have y: "1 < year example_now" by (simp add: example_now_def)
  have f: "first_time time_patterns (lower (''ontem '' @ [CHR 0xE0] @ ''s 14h'')) = Inr (14, 0)"
    by code_simp
  have d: "extract_date_info example_now (''ontem '' @ [CHR 0xE0] @ ''s 14h'') = Inr ''2025-09-06 14:00''"
    by code_simp
  from date_error_branch [OF y, of example_now None]
  have a: "status (fallback_incident_parsing example_now example_now ''30h'' None) = ''error''"
    and u: "\<exists>h mi. first_time time_patterns (lower (''ontem '' @ [CHR 0xE0] @ ''s 14h'')) = Inr (h, mi) \<and>
            (if h \<le> 23 \<and> mi \<le> 59
             then (\<exists>d. extract_date_info example_now (''ontem '' @ [CHR 0xE0] @ ''s 14h'') = Inr d) \<and>
                  status (fallback_incident_parsing example_now example_now (''ontem '' @ [CHR 0xE0] @ ''s 14h'') None) = ''success''
             else (\<exists>msg. extract_date_info example_now (''ontem '' @ [CHR 0xE0] @ ''s 14h'') = Inl (ValueError msg)) \<and>
                  status (fallback_incident_parsing example_now example_now (''ontem '' @ [CHR 0xE0] @ ''s 14h'') None) = ''error'')"
    by blast+
  from u f have "status (fallback_incident_parsing example_now example_now (''ontem '' @ [CHR 0xE0] @ ''s 14h'') None) = ''success''"
    by auto
  with a have "status (fallback_incident_parsing example_now example_now (''ontem '' @ [CHR 0xE0] @ ''s 14h'') None) = ''success'' \<and>
        status (fallback_incident_parsing example_now example_now ''30h'' None) = ''error''" by blast
  with y f d show ?thesis by blast
qed

section \<open>The orchestrator\<close>

lemma parse_incident_structure_cases:
  "parse_incident_structure getenv post loads now_p now now_e text ollama_url mdl =
     (let call = generative_call getenv post now_p text ollama_url mdl in
      case generative_payload call loads of
        Some filled \<Rightarrow> \<lparr>status = ''success'', message = None, incident = filled, method_tag = None\<rparr>
      | None \<Rightarrow>
          fallback_incident_parsing now now_e text (map_option error_str (raised_error call loads)))"
  by (simp add: parse_incident_structure_def generative_call_def generative_payload_def
        raised_error_def Let_def split: sum.splits error.splits)

lemma fallback_incident_is_record:
  "\<exists>d l t i. incident (fallback_incident_parsing now now_e text err) = incident_dict d l t i"
  by (auto simp: fallback_incident_parsing_def fallback_try_def Let_def split: sum.splits)

lemma fallback_error_text:
  "fallback_incident_parsing now now_e text err =
     (case fallback_try now text of
        Inr r \<Rightarrow> fallback_incident_parsing now now_e text None
      | Inl e \<Rightarrow>
          (fallback_incident_parsing now now_e text None)
            \<lparr>message := Some (''Parsing failed: '' @
                 (if err = None \<or> err = Some [] then error_str e else the err))\<rparr>)"
  by (cases err) (auto simp: fallback_incident_parsing_def Let_def split: sum.splits)

lemma map_of_dict_set: "map_of (dict_set kvs k v) = (map_of kvs)(k \<mapsto> v)"
  by (induction kvs k v rule: dict_set.induct) auto

lemma fill_missing_object:
  "\<exists>kvs'. fill_missing fs (JObj kvs) = Inr (JObj kvs') \<and>
      (\<forall>k. map_of kvs' k =
         (if k \<in> set fs \<and> map_of kvs k = None then Some (JStr ''N/A'') else map_of kvs k))"
proof (induction fs arbitrary: kvs)
  case Nil
  then show ?case by simp
next
  case (Cons f fs)
  show ?case
  proof (cases "f \<in> set (map fst kvs)")
    case True
    then have p: "map_of kvs f \<noteq> None" by (simp add: map_of_eq_None_iff)
    from Cons.IH [of kvs] obtain kvs' where k: "fill_missing fs (JObj kvs) = Inr (JObj kvs')"
      "\<forall>k. map_of kvs' k = (if k \<in> set fs \<and> map_of kvs k = None then Some (JStr ''N/A'') else map_of kvs k)"
      by blast
    from True k(1) have "fill_missing (f # fs) (JObj kvs) = Inr (JObj kvs')"
      by (simp add: json_contains_def)
    moreover from k(2) p have "\<forall>k. map_of kvs' k =
         (if k \<in> set (f # fs) \<and> map_of kvs k = None then Some (JStr ''N/A'') else map_of kvs k)"
      by auto
    ultimately show ?thesis by blast
  next
    case False
    then have p: "map_of kvs f = None" by (simp add: map_of_eq_None_iff)
    let ?kvs1 = "dict_set kvs f (JStr ''N/A'')"
    from Cons.IH [of ?kvs1] obtain kvs' where k: "fill_missing fs (JObj ?kvs1) = Inr (JObj kvs')"
      "\<forall>k. map_of kvs' k = (if k \<in> set fs \<and> map_of ?kvs1 k = None then Some (JStr ''N/A'') else map_of ?kvs1 k)"
      by blast
    from False k(1) have "fill_missing (f # fs) (JObj kvs) = Inr (JObj kvs')"
      by (simp add: json_contains_def json_setitem_def)
    moreover from k(2) p have "\<forall>k. map_of kvs' k =
         (if k \<in> set (f # fs) \<and> map_of kvs k = None then Some (JStr ''N/A'') else map_of kvs k)"
      by (auto simp: map_of_dict_set)
    ultimately show ?thesis by blast
  qed
qed

lemma keys_dict_set: "fst ` set (dict_set kvs k v) = insert k (fst ` set kvs)"
  by (induction kvs k v rule: dict_set.induct) auto

lemma json_contains_setitem_new:
  "json_setitem j f v = Inr j' \<Longrightarrow> json_contains j' f = Inr True"
  by (cases j) (auto simp: json_setitem_def json_contains_def keys_dict_set)

lemma json_contains_setitem_old:
  "json_setitem j f v = Inr j' \<Longrightarrow> json_contains j g = Inr True \<Longrightarrow>
   json_contains j' g = Inr True"
  by (cases j) (force simp: json_setitem_def json_contains_def keys_dict_set)+

lemma fill_missing_preserves:
  "fill_missing fs j = Inr j' \<Longrightarrow> json_contains j g = Inr True \<Longrightarrow> json_contains j' g = Inr True"
proof (induction fs arbitrary: j)
  case Nil
  then show ?case by simp
next
  case (Cons f fs)
  from Cons.prems(1) consider
      (present) "json_contains j f = Inr True" "fill_missing fs j = Inr j'"
    | (absent) j1 where "json_contains j f = Inr False" "json_setitem j f (JStr ''N/A'') = Inr j1"
        "fill_missing fs j1 = Inr j'"
    by (auto split: sum.splits bool.splits)
  then show ?case
  proof cases
    case present
    from Cons.IH [OF present(2) Cons.prems(2)] show ?thesis .
  next
    case absent
    from json_contains_setitem_old [OF absent(2) Cons.prems(2)] have "json_contains j1 g = Inr True" .
    from Cons.IH [OF absent(3) this] show ?thesis .
  qed
qed

lemma fill_missing_contains:
  "fill_missing fs j = Inr j' \<Longrightarrow> f \<in> set fs \<Longrightarrow> json_contains j' f = Inr True"
proof (induction fs arbitrary: j)
  case Nil
  then show ?case by simp
next
  case (Cons f0 fs)
  from Cons.prems(1) consider
      (present) "json_contains j f0 = Inr True" "fill_missing fs j = Inr j'"
    | (absent) j1 where "json_contains j f0 = Inr False" "json_setitem j f0 (JStr ''N/A'') = Inr j1"
        "fill_missing fs j1 = Inr j'"
    by (auto split: sum.splits bool.splits)
  then show ?case
  proof cases
    case present
    show ?thesis
    proof (cases "f = f0")
      case True
      with fill_missing_preserves [OF present(2) present(1)] show ?thesis by simp
    next
      case False
      with Cons.prems(2) have "f \<in> set fs" by simp
      from Cons.IH [OF present(2) this] show ?thesis .
    qed
  next
    case absent
    show ?thesis
    proof (cases "f = f0")
      case True
      from fill_missing_preserves [OF absent(3) json_contains_setitem_new [OF absent(2)]] True
      show ?thesis by simp
    next
      case False
      with Cons.prems(2) have "f \<in> set fs" by simp
      from Cons.IH [OF absent(3) this] show ?thesis .
    qed
  qed
qed

text \<open>
  Claim C2, as amended. For every input text and every outcome of the generative call,
  the incident returned by \<^verbatim>\<open>parse_incident_structure\<close> is either the deterministic
  extractor's, and then a mapping with exactly the four keys \<^verbatim>\<open>data_ocorrencia\<close>,
  \<^verbatim>\<open>local\<close>, \<^verbatim>\<open>tipo_incidente\<close>, \<^verbatim>\<open>impacto\<close>, each holding a string; or it is the model's
  own JSON payload after the missing required fields were set to \<^verbatim>\<open>"N/A"\<close>, and then it
  contains each of the four field names but keeps whatever else the model returned
  (further keys, values that are not strings).
\<close>

theorem incident_record_shape:
  "(\<exists>d l t i. incident (parse_incident_structure getenv post loads now_p now now_e text ollama_url mdl)
        = incident_dict d l t i) \<or>
   (generative_payload (generative_call getenv post now_p text ollama_url mdl) loads =
      Some (incident (parse_incident_structure getenv post loads now_p now now_e text ollama_url mdl)) \<and>
    json_contains (incident (parse_incident_structure getenv post loads now_p now now_e text ollama_url mdl))
      ''data_ocorrencia'' = Inr True \<and>
    json_contains (incident (parse_incident_structure getenv post loads now_p now now_e text ollama_url mdl))
      ''local'' = Inr True \<and>
    json_contains (incident (parse_incident_structure getenv post loads now_p now now_e text ollama_url mdl))
      ''tipo_incidente'' = Inr True \<and>
    json_contains (incident (parse_incident_structure getenv post loads now_p now now_e text ollama_url mdl))
      ''impacto'' = Inr True)"
proof (cases "generative_payload (generative_call getenv post now_p text ollama_url mdl) loads")
  case None
  then show ?thesis
    using fallback_incident_is_record by (simp add: parse_incident_structure_cases)
next
  case (Some filled)
  then have i: "incident (parse_incident_structure getenv post loads now_p now now_e text ollama_url mdl) = filled"
    by (simp add: parse_incident_structure_cases)
  from Some obtain pj where f: "fill_missing required_fields pj = Inr filled"
    by (auto simp: generative_payload_def split: sum.splits if_splits)
  have "json_contains filled ''data_ocorrencia'' = Inr True"
       "json_contains filled ''local'' = Inr True"
       "json_contains filled ''tipo_incidente'' = Inr True"
       "json_contains filled ''impacto'' = Inr True"
    by (rule fill_missing_contains [OF f], simp add: required_fields_def)+
  with Some i show ?thesis by simp
qed

text \<open>Claim C2 as stated fails when the model's reply is an object with a null value
  and a fifth key: both are returned as they came.\<close>

theorem incident_record_not_four_strings_counterexample:
  "parse_incident_structure None (post_replies reply_null_local) example_loads
      example_now example_now example_now ''Falha no servidor'' None ''tinyllama'' =
     \<lparr>status = ''success'', message = None,
      incident = JObj [(''local'', JNull), (''extra'', JInt 1), (''data_ocorrencia'', JStr ''N/A''),
                       (''tipo_incidente'', JStr ''N/A''), (''impacto'', JStr ''N/A'')], method_tag = None\<rparr>"
  by code_simp

text \<open>
  Claim C4, as amended. For every well-formed JSON object returned by the generative
  model, each of the four required fields that is absent from the object is set to
  \<^verbatim>\<open>"N/A"\<close> (the same value for every field), every key present in the object keeps its
  value, and no other key is added; in particular a payload missing only \<^verbatim>\<open>local\<close>
  yields \<^verbatim>\<open>local = "N/A"\<close> with the other three fields taken verbatim.
\<close>

theorem missing_fields_filled:
  assumes "generative_call getenv post now_p text ollama_url mdl = Inr r"
    and "status_code r = 200"
    and "json_body r = Inr body"
    and "llm_response_of body = Inr s"
    and "loads s = Inr (JObj kvs)"
  shows "\<exists>kvs'. parse_incident_structure getenv post loads now_p now now_e text ollama_url mdl =
            \<lparr>status = ''success'', message = None, incident = JObj kvs', method_tag = None\<rparr> \<and>
          (\<forall>k. map_of kvs' k =
             (if k \<in> set required_fields \<and> map_of kvs k = None then Some (JStr ''N/A'')
              else map_of kvs k))"
proof -
  from fill_missing_object [of required_fields kvs] obtain kvs' where
    k: "fill_missing required_fields (JObj kvs) = Inr (JObj kvs')"
    "\<forall>k. map_of kvs' k =
         (if k \<in> set required_fields \<and> map_of kvs k = None then Some (JStr ''N/A'') else map_of kvs k)"
    by blast
  from assms k(1) have "generative_payload (generative_call getenv post now_p text ollama_url mdl) loads
      = Some (JObj kvs')"
    by (simp add: generative_payload_def)
  then have "parse_incident_structure getenv post loads now_p now now_e text ollama_url mdl =
            \<lparr>status = ''success'', message = None, incident = JObj kvs', method_tag = None\<rparr>"
    by (simp add: parse_incident_structure_cases)
  with k(2) show ?thesis by blast
qed

theorem missing_fields_filled_witness:
  "generative_call None (post_replies reply_without_local) example_now ''abc'' None ''tinyllama'' =
     Inr \<lparr>status_code = 200, json_body = Inr (JObj [(''response'', JStr reply_without_local)])\<rparr> \<and>
   llm_response_of (JObj [(''response'', JStr reply_without_local)]) = Inr reply_without_local \<and>
   example_loads reply_without_local =
     Inr (JObj [(''data_ocorrencia'', JStr ''2025-09-06 14:00''),
                (''tipo_incidente'', JStr ''Falha no servidor''), (''impacto'', JStr ''2 horas'')]) \<and>
   (\<exists>kvs'. parse_incident_structure None (post_replies reply_without_local) example_loads
              example_now example_now example_now ''abc'' None ''tinyllama'' =
            \<lparr>status = ''success'', message = None, incident = JObj kvs', method_tag = None\<rparr> \<and>
          map_of kvs' ''local'' = Some (JStr ''N/A'') \<and>
          map_of kvs' ''data_ocorrencia'' = Some (JStr ''2025-09-06 14:00'') \<and>
          map_of kvs' ''tipo_incidente'' = Some (JStr ''Falha no servidor'') \<and>
          map_of kvs' ''impacto'' = Some (JStr ''2 horas''))"
proof -
  let ?r = "\<lparr>status_code = 200, json_body = Inr (JObj [(''response'', JStr reply_without_local)])\<rparr>"
  let ?kvs = "[(''data_ocorrencia'', JStr ''2025-09-06 14:00''),
               (''tipo_incidente'', JStr ''Falha no servidor''), (''impacto'', JStr ''2 horas'')]"
  have h1: "generative_call None (post_replies reply_without_local) example_now ''abc'' None ''tinyllama'' = Inr ?r"
    by (simp add: generative_call_def post_replies_def)
  have h2: "status_code ?r = 200" by simp
  have h3: "json_body ?r = Inr (JObj [(''response'', JStr reply_without_local)])" by simp
  have h4: "llm_response_of (JObj [(''response'', JStr reply_without_local)]) = Inr reply_without_local"
    by code_simp
  have h5: "example_loads reply_without_local = Inr (JObj ?kvs)" by code_simp
  from missing_fields_filled [where loads = example_loads and s = reply_without_local
      and now = example_now and now_e = example_now, OF h1 h2 h3 h4 h5]
  obtain kvs' where k: "parse_incident_structure None (post_replies reply_without_local) example_loads
              example_now example_now example_now ''abc'' None ''tinyllama'' =
            \<lparr>status = ''success'', message = None, incident = JObj kvs', method_tag = None\<rparr>"
    "\<forall>k. map_of kvs' k =
       (if k \<in> set required_fields \<and> map_of ?kvs k = None then Some (JStr ''N/A'')
        else map_of ?kvs k)"
    by blast
  from k(2) have "map_of kvs' ''local'' = Some (JStr ''N/A'')"
    "map_of kvs' ''data_ocorrencia'' = Some (JStr ''2025-09-06 14:00'')"
    "map_of kvs' ''tipo_incidente'' = Some (JStr ''Falha no servidor'')"
    "map_of kvs' ''impacto'' = Some (JStr ''2 horas'')"
    by (simp_all add: required_fields_def)
  with k(1) h1 h4 h5 show ?thesis by blast
qed

text \<open>Claim C4 as stated fails for the fields other than \<^verbatim>\<open>local\<close>: with the empty
  object as payload, \<^verbatim>\<open>tipo_incidente\<close> and \<^verbatim>\<open>data_ocorrencia\<close> are \<^verbatim>\<open>"N/A"\<close> too, not the
  incident-type sentinel and not a date.\<close>

theorem missing_fields_not_own_sentinel_counterexample:
  "parse_incident_structure None (post_replies reply_empty_object) example_loads
      example_now example_now example_now ''abc'' None ''tinyllama'' =
     \<lparr>status = ''success'', message = None,
      incident = incident_dict ''N/A'' ''N/A'' ''N/A'' ''N/A'', method_tag = None\<rparr> \<and>
   ''N/A'' \<noteq> type_sentinel \<and> ''N/A'' \<noteq> ''2025-09-07 00:00''"
  by code_simp

text \<open>What the three failures of the generative path come to: a raising call and a
  body that does not parse reach the outer \<^verbatim>\<open>except\<close> with their exception; a status
  other than 200 and a completion that \<^verbatim>\<open>json.loads\<close> rejects reach the fallback with
  no exception at all. None delivers a payload.\<close>

lemma generative_failure_kinds:
  "call = Inl e \<Longrightarrow> generative_payload call loads = None \<and> raised_error call loads = Some e"
  "call = Inr r \<Longrightarrow> status_code r \<noteq> 200 \<Longrightarrow>
     generative_payload call loads = None \<and> raised_error call loads = None"
  "call = Inr r \<Longrightarrow> status_code r = 200 \<Longrightarrow> json_body r = Inl e \<Longrightarrow>
     generative_payload call loads = None \<and> raised_error call loads = Some e"
  "call = Inr r \<Longrightarrow> status_code r = 200 \<Longrightarrow> json_body r = Inr body \<Longrightarrow>
     llm_response_of body = Inr s \<Longrightarrow> loads s = Inl (JSONDecodeError msg) \<Longrightarrow>
     generative_payload call loads = None \<and> raised_error call loads = None"
  by (simp_all add: generative_payload_def raised_error_def)

text \<open>
  Claim C1, as amended. Whenever the generative path delivers no validated payload (the
  call raises, the status is not 200, the body or the completion does not parse as JSON,
  or the payload cannot be validated), \<^verbatim>\<open>parse_incident_structure\<close> returns the
  deterministic extractor's status, four-field incident and method for the same raw
  text. The whole result is the extractor's own when the extractor succeeds, when no
  exception reached the outer \<^verbatim>\<open>except\<close>, or when that exception's text is empty. When
  the extractor fails and an exception with a non-empty text was raised, the result is
  the extractor's error record with its message replaced by \<^verbatim>\<open>"Parsing failed: "\<close>
  followed by the generative path's exception text.
\<close>

theorem generative_failure_falls_back:
  assumes "generative_payload (generative_call getenv post now_p text ollama_url mdl) loads = None"
  shows "status (parse_incident_structure getenv post loads now_p now now_e text ollama_url mdl) =
           status (fallback_incident_parsing now now_e text None) \<and>
         incident (parse_incident_structure getenv post loads now_p now now_e text ollama_url mdl) =
           incident (fallback_incident_parsing now now_e text None) \<and>
         method_tag (parse_incident_structure getenv post loads now_p now now_e text ollama_url mdl) =
           method_tag (fallback_incident_parsing now now_e text None) \<and>
         parse_incident_structure getenv post loads now_p now now_e text ollama_url mdl =
           (case fallback_try now text of
              Inr r \<Rightarrow> fallback_incident_parsing now now_e text None
            | Inl e0 \<Rightarrow>
                (case raised_error (generative_call getenv post now_p text ollama_url mdl) loads of
                   None \<Rightarrow> fallback_incident_parsing now now_e text None
                 | Some e \<Rightarrow>
                     if error_str e = [] then fallback_incident_parsing now now_e text None
                     else (fallback_incident_parsing now now_e text None)
                            \<lparr>message := Some (''Parsing failed: '' @ error_str e)\<rparr>))"
proof -
  let ?call = "generative_call getenv post now_p text ollama_url mdl"
  let ?err = "map_option error_str (raised_error ?call loads)"
  let ?det = "fallback_incident_parsing now now_e text None"
  let ?out = "parse_incident_structure getenv post loads now_p now now_e text ollama_url mdl"
  from assms have p: "?out = fallback_incident_parsing now now_e text ?err"
    by (simp add: parse_incident_structure_cases)
  have exact: "?out =
           (case fallback_try now text of
              Inr r \<Rightarrow> ?det
            | Inl e0 \<Rightarrow>
                (case raised_error ?call loads of
                   None \<Rightarrow> ?det
                 | Some e \<Rightarrow>
                     if error_str e = [] then ?det
                     else ?det\<lparr>message := Some (''Parsing failed: '' @ error_str e)\<rparr>))"
  proof (cases "fallback_try now text")
    case (Inr r)
    then have "fallback_incident_parsing now now_e text ?err = ?det"
      by (simp add: fallback_incident_parsing_def)
    with p Inr show ?thesis by simp
  next
    case (Inl e0)
    show ?thesis
    proof (cases "raised_error ?call loads")
      case None
      with p Inl show ?thesis by simp
    next
      case (Some e)
      with Inl have "fallback_incident_parsing now now_e text ?err =
          (if error_str e = [] then ?det
           else ?det\<lparr>message := Some (''Parsing failed: '' @ error_str e)\<rparr>)"
        by (simp add: fallback_incident_parsing_def Let_def)
      with p Inl Some show ?thesis by simp
    qed
  qed
  have "status ?out = status ?det \<and> incident ?out = incident ?det \<and>
        method_tag ?out = method_tag ?det"
    unfolding p by (simp add: fallback_incident_parsing_def Let_def split: sum.splits)
  with exact show ?thesis by blast
qed

theorem generative_failure_falls_back_witness:
  "generative_payload (generative_call None post_raises example_now ''abc'' None ''tinyllama'')
      example_loads = None \<and>
   parse_incident_structure None post_raises example_loads example_now example_now example_now
      ''abc'' None ''tinyllama'' =
     fallback_incident_parsing example_now example_now ''abc'' None \<and>
   generative_payload (generative_call None post_raises example_now ''30h'' None ''tinyllama'')
      example_loads = None \<and>
   parse_incident_structure None post_raises example_loads example_now example_now example_now
      ''30h'' None ''tinyllama'' =
     (fallback_incident_parsing example_now example_now ''30h'' None)
       \<lparr>message := Some ''Parsing failed: timeout''\<rparr>"
proof -
  have h1: "generative_payload (generative_call None post_raises example_now ''abc'' None ''tinyllama'')
      example_loads = None"
    by (simp add: generative_call_def post_raises_def generative_payload_def)
  have h2: "generative_payload (generative_call None post_raises example_now ''30h'' None ''tinyllama'')
      example_loads = None"
    by (simp add: generative_call_def post_raises_def generative_payload_def)
  have r2: "raised_error (generative_call None post_raises example_now ''30h'' None ''tinyllama'')
      example_loads = Some (TransportError ''timeout'')"
    by (simp add: generative_call_def post_raises_def raised_error_def)
  have f1: "fallback_try example_now ''abc'' =
      Inr \<lparr>status = ''success'', message = None,
           incident = incident_dict ''2025-09-07 00:00'' ''N/A'' type_sentinel ''abc'',
           method_tag = Some ''regex_fallback''\<rparr>"
    by code_simp
  have f2: "fallback_try example_now ''30h'' = Inl (ValueError ''hour must be in 0..23'')"
    by code_simp
  from generative_failure_falls_back [OF h1, of example_now example_now] f1
  have a: "parse_incident_structure None post_raises example_loads example_now example_now example_now
      ''abc'' None ''tinyllama'' = fallback_incident_parsing example_now example_now ''abc'' None"
    by simp
  from generative_failure_falls_back [OF h2, of example_now example_now] f2 r2
  have b: "parse_incident_structure None post_raises example_loads example_now example_now example_now
      ''30h'' None ''tinyllama'' =
     (fallback_incident_parsing example_now example_now ''30h'' None)
       \<lparr>message := Some ''Parsing failed: timeout''\<rparr>"
    by simp
  from h1 a h2 b show ?thesis by blast
qed

text \<open>Claim C1 as stated fails when both paths fail: the call raises and the text
  makes the date extraction raise. The two results differ in their message.\<close>

theorem double_failure_message_counterexample:
  "parse_incident_structure None post_raises example_loads example_now example_now example_now ''30h'' None ''tinyllama'' =
     \<lparr>status = ''error'', message = Some ''Parsing failed: timeout'',
      incident = incident_dict ''2025-09-07 10:30'' ''N/A'' ''Erro no processamento'' ''30h'', method_tag = None\<rparr> \<and>
   fallback_incident_parsing example_now example_now ''30h'' None =
     \<lparr>status = ''error'', message = Some ''Parsing failed: hour must be in 0..23'',
      incident = incident_dict ''2025-09-07 10:30'' ''N/A'' ''Erro no processamento'' ''30h'', method_tag = None\<rparr>"
  by code_simp

section \<open>The batch endpoint\<close>

lemma batch_loop_spec:
  "batch_loop pm loads agent i w rs acc = (w', res) \<Longrightarrow>
   w' = world_after pm loads agent w rs \<and> length res = length acc + length rs \<and>
   (\<forall>j < length acc. res ! j = acc ! j) \<and>
   (\<forall>j < length rs. res ! (length acc + j) =
      item_result (i + j)
        (snd (parse_incident pm loads agent (world_after pm loads agent w (take j rs)) (rs ! j))))"
proof (induction rs arbitrary: i w acc)
  case Nil
  then show ?case by simp
next
  case (Cons r rs)
  obtain w1 x where p: "parse_incident pm loads agent w r = (w1, x)" by (cases "parse_incident pm loads agent w r")
  with Cons.prems have b: "batch_loop pm loads agent (i + 1) w1 rs (acc @ [item_result i x]) = (w', res)"
    by simp
  from Cons.IH [OF b] have ih:
    "w' = world_after pm loads agent w1 rs"
    "length res = length (acc @ [item_result i x]) + length rs"
    "\<forall>j < length (acc @ [item_result i x]). res ! j = (acc @ [item_result i x]) ! j"
    "\<forall>j < length rs. res ! (length (acc @ [item_result i x]) + j) =
      item_result (i + 1 + j)
        (snd (parse_incident pm loads agent (world_after pm loads agent w1 (take j rs)) (rs ! j)))"
    by blast+
  have 1: "w' = world_after pm loads agent w (r # rs)" using ih(1) p by simp
  have 2: "length res = length acc + length (r # rs)" using ih(2) by simp
  have 3: "\<forall>j < length acc. res ! j = acc ! j"
  proof (intro allI impI)
    fix j assume "j < length acc"
    with ih(3) show "res ! j = acc ! j" by (simp add: nth_append)
  qed
  have 4: "\<forall>j < length (r # rs). res ! (length acc + j) =
      item_result (i + j)
        (snd (parse_incident pm loads agent (world_after pm loads agent w (take j (r # rs))) ((r # rs) ! j)))"
  proof (intro allI impI)
    fix j assume j: "j < length (r # rs)"
    show "res ! (length acc + j) =
      item_result (i + j)
        (snd (parse_incident pm loads agent (world_after pm loads agent w (take j (r # rs))) ((r # rs) ! j)))"
    proof (cases j)
      case 0
      from ih(3) have "res ! length acc = item_result i x" by simp
      with 0 p show ?thesis by simp
    next
      case (Suc j')
      with j have "j' < length rs" by simp
      with ih(4) have "res ! (length (acc @ [item_result i x]) + j') =
        item_result (i + 1 + j')
          (snd (parse_incident pm loads agent (world_after pm loads agent w1 (take j' rs)) (rs ! j')))"
        by blast
      with Suc p show ?thesis by simp
    qed
  qed
  from 1 2 3 4 show ?case by blast
qed

text \<open>
  Claim C8. A batch of more than 100 items is rejected with an exception and the world
  is left as it was: no item has been processed and no partial result is returned. A
  batch of at most 100 items, once the parser agent has been set by start-up, returns a
  list with exactly one outcome per input, the \<open>i\<close>-th being the outcome of the \<open>i\<close>-th
  request processed after the requests before it.
\<close>

theorem batch_cap:
  "(length requests > 100 \<longrightarrow>
      (\<exists>e. parse_batch_incidents pm loads parser_agent w requests = (w, Inl e))) \<and>
   (length requests \<le> 100 \<and> parser_agent \<noteq> None \<longrightarrow>
      (\<exists>results. parse_batch_incidents pm loads parser_agent w requests =
           (world_after pm loads parser_agent w requests, Inr results) \<and>
         length results = length requests \<and>
         (\<forall>i < length requests. results ! i =
            item_result i
              (snd (parse_incident pm loads parser_agent
                      (world_after pm loads parser_agent w (take i requests)) (requests ! i))))))"
proof (intro conjI impI)
  assume "length requests > 100"
  then show "\<exists>e. parse_batch_incidents pm loads parser_agent w requests = (w, Inl e)"
    by (simp add: parse_batch_incidents_def)
next
  assume a: "length requests \<le> 100 \<and> parser_agent \<noteq> None"
  obtain w' res where b: "batch_loop pm loads parser_agent 0 w requests [] = (w', res)"
    by (cases "batch_loop pm loads parser_agent 0 w requests []")
  from batch_loop_spec [OF b] have s: "w' = world_after pm loads parser_agent w requests"
    "length res = length requests"
    "\<forall>j < length requests. res ! j =
      item_result j
        (snd (parse_incident pm loads parser_agent
                (world_after pm loads parser_agent w (take j requests)) (requests ! j)))"
    by simp_all
  from a b s(1) have "parse_batch_incidents pm loads parser_agent w requests =
           (world_after pm loads parser_agent w requests, Inr res)"
    by (auto simp: parse_batch_incidents_def)
  with s(2,3) show "\<exists>results. parse_batch_incidents pm loads parser_agent w requests =
           (world_after pm loads parser_agent w requests, Inr results) \<and>
         length results = length requests \<and>
         (\<forall>i < length requests. results ! i =
            item_result i
              (snd (parse_incident pm loads parser_agent
                      (world_after pm loads parser_agent w (take i requests)) (requests ! i))))"
    by blast
qed

theorem batch_cap_witness:
  "length (replicate 101 \<lparr>description = ''Falha no servidor'', model = None\<rparr>) > 100 \<and>
   parse_batch_incidents counting_agent example_loads (Some ()) 0
      (replicate 101 \<lparr>description = ''Falha no servidor'', model = None\<rparr>) =
     (0, Inl (HTTPException 400 ''Maximum 100 incidents per batch'')) \<and>
   length example_batch \<le> 100 \<and> Some () \<noteq> None \<and>
   (\<exists>results. parse_batch_incidents counting_agent example_loads (Some ()) 0 example_batch =
        (world_after counting_agent example_loads (Some ()) 0 example_batch, Inr results) \<and>
      length results = length example_batch)"
proof -
  let ?big = "replicate 101 \<lparr>description = ''Falha no servidor'', model = None\<rparr>"
  have h1: "length ?big > 100" by simp
  have h2: "length example_batch \<le> 100 \<and> Some () \<noteq> None" by (simp add: example_batch_def)
  note t = batch_cap [where pm = counting_agent and loads = example_loads and parser_agent = "Some ()"
      and w = "0::nat"]
  from t [where requests = ?big] h1
  obtain e where e: "parse_batch_incidents counting_agent example_loads (Some ()) 0 ?big = (0, Inl e)"
    by blast
  have "parse_batch_incidents counting_agent example_loads (Some ()) 0 ?big =
      (0, Inl (HTTPException 400 ''Maximum 100 incidents per batch''))"
    by (simp add: parse_batch_incidents_def)
  moreover from t [where requests = example_batch] h2
  have "\<exists>results. parse_batch_incidents counting_agent example_loads (Some ()) 0 example_batch =
        (world_after counting_agent example_loads (Some ()) 0 example_batch, Inr results) \<and>
      length results = length example_batch" by blast
  ultimately show ?thesis using h1 h2 by blast
qed

section \<open>The normalizer\<close>

lemma rmatch_at_consumes:
  "rmatch_at r ic s k = Some res \<Longrightarrow>
   (\<forall>a \<in> set (regex_atoms r). \<forall>c. atom_match ic a c \<longrightarrow> D c) \<Longrightarrow>
   \<exists>s' xs. k s' = Some res \<and> rest s = xs @ rest s' \<and> list_all D xs"
proof (induction r arbitrary: s k)
  case (Atom a)
  from Atom.prems(1) obtain c cs where c: "rest s = c # cs" "atom_match ic a c"
    "k (s\<lparr>prev := Some c, rest := cs\<rparr>) = Some res"
    by (auto split: list.splits if_splits)
  from c(2) Atom.prems(2) have "D c" by simp
  with c(1) have "rest s = [c] @ rest (s\<lparr>prev := Some c, rest := cs\<rparr>) \<and> list_all D [c]" by simp
  with c(3) show ?case by blast
next
  case (Rep a lo hi g)
  from Rep.prems(1) have "rep a ic g (caps s) k lo hi (prev s) (rest s) = Some res" by simp
  from rep_sound [OF this] obtain xs ys where x: "rest s = xs @ ys" "list_all (atom_match ic a) xs"
    "k \<lparr>prev = (if xs = [] then prev s else Some (last xs)), rest = ys, caps = caps s\<rparr> = Some res"
    by blast
  from x(2) Rep.prems(2) have "list_all D xs" by (simp add: list_all_iff)
  with x(1) have "rest s = xs @ rest \<lparr>prev = (if xs = [] then prev s else Some (last xs)), rest = ys, caps = caps s\<rparr>
      \<and> list_all D xs" by simp
  with x(3) show ?case by blast
next
  case (Opt r)
  from Opt.prems(2) have a: "\<forall>a \<in> set (regex_atoms r). \<forall>c. atom_match ic a c \<longrightarrow> D c" by simp
  show ?case
  proof (cases "rmatch_at r ic s k")
    case None
    with Opt.prems(1) have "k s = Some res" by simp
    moreover have "rest s = [] @ rest s \<and> list_all D []" by simp
    ultimately show ?thesis by blast
  next
    case (Some x)
    with Opt.prems(1) have "rmatch_at r ic s k = Some res" by simp
    from Opt.IH [OF this a] show ?thesis .
  qed
next
  case (Seq r1 r2)
  from Seq.prems(2) have a1: "\<forall>a \<in> set (regex_atoms r1). \<forall>c. atom_match ic a c \<longrightarrow> D c"
    and a2: "\<forall>a \<in> set (regex_atoms r2). \<forall>c. atom_match ic a c \<longrightarrow> D c" by auto
  from Seq.prems(1) have "rmatch_at r1 ic s (\<lambda>s'. rmatch_at r2 ic s' k) = Some res" by simp
  from Seq.IH(1) [OF this a1]
  obtain s1 xs1 where s1: "rmatch_at r2 ic s1 k = Some res" "rest s = xs1 @ rest s1" "list_all D xs1"
    by blast
  from Seq.IH(2) [OF s1(1) a2]
  obtain s2 xs2 where s2: "k s2 = Some res" "rest s1 = xs2 @ rest s2" "list_all D xs2"
    by blast
  from s1(2,3) s2(2,3) have "rest s = (xs1 @ xs2) @ rest s2 \<and> list_all D (xs1 @ xs2)" by simp
  with s2(1) show ?case by blast
next
  case Eps
  then have "k s = Some res" by simp
  moreover have "rest s = [] @ rest s \<and> list_all D []" by simp
  ultimately show ?case by blast
next
  case (Alt r1 r2)
  from Alt.prems(2) have a1: "\<forall>a \<in> set (regex_atoms r1). \<forall>c. atom_match ic a c \<longrightarrow> D c"
    and a2: "\<forall>a \<in> set (regex_atoms r2). \<forall>c. atom_match ic a c \<longrightarrow> D c" by auto
  show ?case
  proof (cases "rmatch_at r1 ic s k")
    case None
    with Alt.prems(1) have "rmatch_at r2 ic s k = Some res" by simp
    from Alt.IH(2) [OF this a2] show ?thesis .
  next
    case (Some x)
    with Alt.prems(1) have "rmatch_at r1 ic s k = Some res" by simp
    from Alt.IH(1) [OF this a1] show ?thesis .
  qed
next
  case (Group n r)
  from Group.prems(2) have a: "\<forall>a \<in> set (regex_atoms r). \<forall>c. atom_match ic a c \<longrightarrow> D c" by simp
  let ?k = "\<lambda>s'. k (s'\<lparr>caps := (caps s')[n - 1 :=
                  Some (take (length (rest s) - length (rest s')) (rest s))]\<rparr>)"
  from Group.prems(1) have "rmatch_at r ic s ?k = Some res" by simp
  from Group.IH [OF this a]
  obtain s1 xs where s1: "?k s1 = Some res" "rest s = xs @ rest s1" "list_all D xs" by blast
  let ?s2 = "s1\<lparr>caps := (caps s1)[n - 1 :=
                  Some (take (length (rest s) - length (rest s1)) (rest s))]\<rparr>"
  from s1(2,3) have "rest s = xs @ rest ?s2 \<and> list_all D xs" by simp
  with s1(1) show ?case by blast
next
  case WordB
  then have "k s = Some res" by (simp split: if_splits)
  moreover have "rest s = [] @ rest s \<and> list_all D []" by simp
  ultimately show ?case by blast
qed

lemma sub_scan_end:
  "sub_scan r ic repl skip p [] = [] \<or> sub_scan r ic repl skip p [] = repl"
proof (cases skip)
  case 0
  then show ?thesis
    by (cases "rmatch_at r ic \<lparr>prev = p, rest = [], caps = replicate (ngroups r) None\<rparr> Some")
       simp_all
next
  case (Suc n)
  then show ?thesis by simp
qed

lemma sub_scan_skip:
  "sub_scan r ic repl (Suc n) p (c # cs) = sub_scan r ic repl n (Some c) cs"
  by simp

lemma sub_scan_no_match:
  "rmatch_at r ic \<lparr>prev = p, rest = c # cs, caps = replicate (ngroups r) None\<rparr> Some = None \<Longrightarrow>
   sub_scan r ic repl 0 p (c # cs) = c # sub_scan r ic repl 0 (Some c) cs"
  by simp

lemma sub_scan_empty_match:
  "rmatch_at r ic \<lparr>prev = p, rest = c # cs, caps = replicate (ngroups r) None\<rparr> Some = Some s' \<Longrightarrow>
   length (rest s') = length (c # cs) \<Longrightarrow>
   sub_scan r ic repl 0 p (c # cs) = repl @ c # sub_scan r ic repl 0 (Some c) cs"
  by simp

lemma sub_scan_match:
  "rmatch_at r ic \<lparr>prev = p, rest = c # cs, caps = replicate (ngroups r) None\<rparr> Some = Some s' \<Longrightarrow>
   length (rest s') \<noteq> length (c # cs) \<Longrightarrow>
   sub_scan r ic repl 0 p (c # cs) =
     repl @ sub_scan r ic repl (length (c # cs) - length (rest s') - 1) (Some c) cs"
  by simp

text \<open>A substitution whose matches and replacement consist of separator characters
  leaves every other character where it was.\<close>

lemma sub_scan_keeps:
  assumes atoms: "\<forall>a \<in> set (regex_atoms r). \<forall>c. atom_match ic a c \<longrightarrow> sep_char c"
    and repl: "list_all sep_char repl"
  shows "list_all sep_char (take skip s) \<Longrightarrow>
         filter (\<lambda>c. \<not> sep_char c) (sub_scan r ic repl skip p s) =
         filter (\<lambda>c. \<not> sep_char c) (drop skip s)"
proof (induction s arbitrary: skip p)
  case Nil
  from repl have f: "filter (\<lambda>c. \<not> sep_char c) repl = []" by (simp add: list_all_iff)
  from sub_scan_end [of r ic repl skip p] f show ?case by (auto simp del: sub_scan.simps)
next
  case (Cons c cs)
  from repl have fr: "filter (\<lambda>c. \<not> sep_char c) repl = []" by (simp add: list_all_iff)
  show ?case
  proof (cases skip)
    case (Suc sk)
    with Cons.prems have "list_all sep_char (take sk cs)" by simp
    from Cons.IH [OF this, of "Some c"] Suc show ?thesis by (simp only: sub_scan_skip drop_Suc_Cons)
  next
    case 0
    let ?s0 = "\<lparr>prev = p, rest = c # cs, caps = replicate (ngroups r) None\<rparr>"
    have t0: "list_all sep_char (take 0 cs)" by simp
    have ih0: "filter (\<lambda>c. \<not> sep_char c) (sub_scan r ic repl 0 (Some c) cs) =
               filter (\<lambda>c. \<not> sep_char c) cs"
      using Cons.IH [OF t0, of "Some c"] by simp
    show ?thesis
    proof (cases "rmatch_at r ic ?s0 Some")
      case None
      from sub_scan_no_match [OF None, of repl] ih0 0 show ?thesis by simp
    next
      case (Some s')
      from rmatch_at_consumes [OF Some, of sep_char] atoms
      obtain s'' xs where x: "Some s'' = Some s'" "rest ?s0 = xs @ rest s''" "list_all sep_char xs"
        by blast
      then have x': "c # cs = xs @ rest s'" by simp
      show ?thesis
      proof (cases "length (rest s') = length (c # cs)")
        case True
        from sub_scan_empty_match [OF Some True, of repl] ih0 0 fr show ?thesis by simp
      next
        case False
        with x' obtain xs' where xs': "xs = c # xs'" by (cases xs) auto
        with x' have cs: "cs = xs' @ rest s'" by simp
        then have n: "length (c # cs) - length (rest s') - 1 = length xs'" by simp
        from cs x(3) xs' have t: "list_all sep_char (take (length xs') cs)" by simp
        from x(3) xs' have fx: "filter (\<lambda>c. \<not> sep_char c) (c # xs') = []" by (simp add: list_all_iff)
        have ih: "filter (\<lambda>c. \<not> sep_char c) (sub_scan r ic repl (length xs') (Some c) cs) =
              filter (\<lambda>c. \<not> sep_char c) (drop (length xs') cs)"
          by (rule Cons.IH [OF t])
        have dr: "drop (length xs') cs = rest s'" using cs by simp
        from ih dr have i2: "filter (\<lambda>c. \<not> sep_char c) (sub_scan r ic repl (length xs') (Some c) cs) =
              filter (\<lambda>c. \<not> sep_char c) (rest s')" by simp
        have "filter (\<lambda>c. \<not> sep_char c) (c # cs) = filter (\<lambda>c. \<not> sep_char c) ((c # xs') @ rest s')"
          using cs by simp
        also have "\<dots> = filter (\<lambda>c. \<not> sep_char c) (rest s')"
          using fx by (simp only: filter_append append_Nil)
        finally have i3: "filter (\<lambda>c. \<not> sep_char c) (c # cs) = filter (\<lambda>c. \<not> sep_char c) (rest s')" .
        have "sub_scan r ic repl 0 p (c # cs) = repl @ sub_scan r ic repl (length xs') (Some c) cs"
          using sub_scan_match [OF Some False, of repl] n by simp
        then have "filter (\<lambda>c. \<not> sep_char c) (sub_scan r ic repl 0 p (c # cs)) =
                   filter (\<lambda>c. \<not> sep_char c) (rest s')"
          using fr i2 by (simp only: filter_append append_Nil)
        with i3 0 show ?thesis by simp
      qed
    qed
  qed
qed

lemma re_sub_keeps:
  assumes "\<forall>a \<in> set (regex_atoms r). \<forall>c. atom_match False a c \<longrightarrow> sep_char c"
    and "list_all sep_char repl"
  shows "filter (\<lambda>c. \<not> sep_char c) (re_sub r repl s) = filter (\<lambda>c. \<not> sep_char c) s"
  using sub_scan_keeps [OF assms, of 0 s None] by (simp add: re_sub_def)

lemma filter_dropWhile_space:
  "filter (\<lambda>c. \<not> sep_char c) (dropWhile isspace s) = filter (\<lambda>c. \<not> sep_char c) s"
  by (induction s) (auto simp: sep_char_def)

lemma strip_keeps: "filter (\<lambda>c. \<not> sep_char c) (strip s) = filter (\<lambda>c. \<not> sep_char c) s"
proof -
  have "filter (\<lambda>c. \<not> sep_char c) (strip s) =
        rev (filter (\<lambda>c. \<not> sep_char c) (dropWhile isspace (rev (dropWhile isspace s))))"
    by (simp add: strip_def rev_filter)
  also have "\<dots> = rev (filter (\<lambda>c. \<not> sep_char c) (rev (dropWhile isspace s)))"
    by (simp only: filter_dropWhile_space)
  also have "\<dots> = filter (\<lambda>c. \<not> sep_char c) (dropWhile isspace s)"
    by (simp add: rev_filter)
  finally show ?thesis by (simp only: filter_dropWhile_space)
qed

lemma cleaning_keeps:
  "filter (\<lambda>c. \<not> sep_char c) (basic_text_cleaning text) = filter (\<lambda>c. \<not> sep_char c) text"
proof -
  have sp: "\<forall>c. atom_match False sp c \<longrightarrow> sep_char c" by (simp add: sp_def sep_char_def)
  have a1: "\<forall>a \<in> set (regex_atoms sp_plus). \<forall>c. atom_match False a c \<longrightarrow> sep_char c"
    using sp by (simp add: sp_plus_def)
  have a2: "\<forall>a \<in> set (regex_atoms (seqs [sp_star, Atom (Lit CHR '',''), sp_star])).
              \<forall>c. atom_match False a c \<longrightarrow> sep_char c"
    using sp by (simp add: seqs_def sp_star_def sep_char_def)
  have a3: "\<forall>a \<in> set (regex_atoms (seqs [sp_star, Atom (Lit CHR ''.''), sp_star])).
              \<forall>c. atom_match False a c \<longrightarrow> sep_char c"
    using sp by (simp add: seqs_def sp_star_def sep_char_def)
  have r1: "list_all sep_char '' ''" by (simp add: sep_char_def isspace_def)
  have r2: "list_all sep_char '', ''" by (simp add: sep_char_def isspace_def)
  have r3: "list_all sep_char ''. ''" by (simp add: sep_char_def isspace_def)
  have d: "sep_char CHR ''.''" by (simp add: sep_char_def)
  show ?thesis
    by (simp add: basic_text_cleaning_def Let_def re_sub_keeps [OF a1 r1] re_sub_keeps [OF a2 r2]
          re_sub_keeps [OF a3 r3] strip_keeps d)
qed

lemma brackets_filter: "brackets s = brackets (filter (\<lambda>c. \<not> sep_char c) s)"
proof -
  have "\<not> sep_char CHR ''[''" by (simp add: sep_char_def isspace_def)
  then have "(\<lambda>x. \<not> sep_char x \<and> x = CHR ''['') = (\<lambda>x. x = CHR ''['')" by auto
  then show ?thesis by (simp add: brackets_def)
qed

lemma cleaning_brackets: "brackets (basic_text_cleaning text) = brackets text"
  using brackets_filter [of "basic_text_cleaning text"] brackets_filter [of "text"]
  by (simp add: cleaning_keeps)

lemma brackets_append: "brackets (xs @ ys) = brackets xs + brackets ys"
  by (simp add: brackets_def)

lemma time_marker_brackets: "brackets time_marker = 0"
  by (simp add: brackets_def time_marker_def)

lemma time_context_brackets: "brackets (add_missing_time_context x) = brackets x"
  by (simp add: add_missing_time_context_def Let_def brackets_append time_marker_brackets)

lemma digit_char_no_bracket: "digit_char n \<noteq> CHR ''[''"
proof -
  have "n mod 10 < length ''0123456789''" by simp
  then have "''0123456789'' ! (n mod 10) \<in> set ''0123456789''" by (rule nth_mem)
  then show ?thesis unfolding digit_char_def by auto
qed

lemma annotation_brackets: "brackets (reference_annotation now) = 1"
  by (simp add: brackets_def reference_annotation_def strftime_date_def pad2_def pad4_def
        digit_char_no_bracket)

lemma annotation_last: "\<exists>y. reference_annotation now = y @ '']''"
  by (simp add: reference_annotation_def)

lemma cleaning_last: "\<exists>y. basic_text_cleaning text = y @ ''.''"
  by (auto simp: basic_text_cleaning_def Let_def endswith_def suffix_def)

lemma time_context_last:
  "\<exists>y. add_missing_time_context (basic_text_cleaning text) = y @ ''.'' \<or>
       add_missing_time_context (basic_text_cleaning text) = y @ '')''"
proof -
  let ?c = "basic_text_cleaning text"
  from cleaning_last obtain y where y: "?c = y @ ''.''" by blast
  have tm: "time_marker = butlast time_marker @ '')''" by (simp add: time_marker_def)
  have "add_missing_time_context ?c = ?c \<or> add_missing_time_context ?c = ?c @ time_marker"
    by (simp add: add_missing_time_context_def Let_def)
  then show ?thesis
  proof
    assume "add_missing_time_context ?c = ?c"
    with y show ?thesis by auto
  next
    assume "add_missing_time_context ?c = ?c @ time_marker"
    with tm have "add_missing_time_context ?c = (?c @ butlast time_marker) @ '')''" by simp
    then show ?thesis by blast
  qed
qed

text \<open>
  Claim C5, as amended. The normalizer is not idempotent. Whenever the cleaned text (with
  its time marker, if one was added) contains a relative-date word, the normalizer's
  output ends with the reference-date annotation, and normalizing that output once more
  never gives it back unchanged.
\<close>

theorem renormalizing_is_not_fixed:
  assumes "has_relative_word (add_missing_time_context (basic_text_cleaning text))"
  shows "\<exists>x. preprocess_incident_text now text = x @ reference_annotation now \<and>
             preprocess_incident_text now (preprocess_incident_text now text) \<noteq>
               preprocess_incident_text now text"
proof -
  let ?X = "add_missing_time_context (basic_text_cleaning text)"
  let ?P = "preprocess_incident_text now text"
  let ?Y = "add_missing_time_context (basic_text_cleaning ?P)"
  from assms have P: "?P = ?X @ reference_annotation now"
    by (simp add: preprocess_incident_text_def add_date_reference_def has_relative_word_def)
  have bY: "brackets ?Y = brackets ?P"
    by (simp add: time_context_brackets cleaning_brackets)
  have "preprocess_incident_text now ?P \<noteq> ?P"
  proof (cases "has_relative_word ?Y")
    case True
    then have "preprocess_incident_text now ?P = ?Y @ reference_annotation now"
      by (simp add: preprocess_incident_text_def add_date_reference_def has_relative_word_def)
    then have "brackets (preprocess_incident_text now ?P) = brackets ?P + 1"
      by (simp add: brackets_append annotation_brackets bY)
    then show ?thesis by auto
  next
    case False
    then have e: "preprocess_incident_text now ?P = ?Y"
      by (simp add: preprocess_incident_text_def add_date_reference_def has_relative_word_def)
    from time_context_last [of ?P] obtain y where
      y: "?Y = y @ ''.'' \<or> ?Y = y @ '')''" by blast
    from annotation_last obtain z where "reference_annotation now = z @ '']''" by blast
    with P have "?P = (?X @ z) @ '']''" by simp
    then have lp: "last ?P = CHR '']''" by (simp only: last_snoc)
    from y have ly: "last ?Y = CHR ''.'' \<or> last ?Y = CHR '')''" by auto
    have "?Y \<noteq> ?P"
    proof
      assume "?Y = ?P"
      with lp ly show False by simp
    qed
    with e show ?thesis by simp
  qed
  with P show ?thesis by blast
qed

theorem renormalizing_is_not_fixed_witness:
  "has_relative_word (add_missing_time_context (basic_text_cleaning ''hoje 10h'')) \<and>
   preprocess_incident_text example_now ''hoje 10h'' = ''hoje 10h.'' @ reference_annotation example_now \<and>
   preprocess_incident_text example_now (preprocess_incident_text example_now ''hoje 10h'') \<noteq>
     preprocess_incident_text example_now ''hoje 10h''"
proof -
  have h: "has_relative_word (add_missing_time_context (basic_text_cleaning ''hoje 10h''))"
    by code_simp
  have p: "preprocess_incident_text example_now ''hoje 10h'' = ''hoje 10h.'' @ reference_annotation example_now"
    by code_simp
  from renormalizing_is_not_fixed [OF h, of example_now] p h show ?thesis by blast
qed

text \<open>Claim C5 as stated fails on \<^verbatim>\<open>"hoje 10h"\<close>: the second pass adds a full stop
  and a second annotation.\<close>

theorem normalizer_not_idempotent_counterexample:
  "preprocess_incident_text example_now ''hoje 10h'' =
     ''hoje 10h. [Refer'' @ [CHR 0xEA] @ ''ncia: 2025-09-07]'' \<and>
   preprocess_incident_text example_now (preprocess_incident_text example_now ''hoje 10h'') =
     ''hoje 10h. [Refer'' @ [CHR 0xEA] @ ''ncia: 2025-09-07]. [Refer'' @ [CHR 0xEA] @ ''ncia: 2025-09-07]''"
  by code_simp

text \<open>Also without a relative-date word a second pass changes the text: the full stop
  that ends the text gets a space after it, so the test for a final full stop fails and
  another one is added.\<close>

lemma period_doubled_example:
  "preprocess_incident_text example_now ''abc.'' = ''abc. .''"
  by code_simp

end
